theory Spec2Isabelle
  imports Complex_Main "HOL-Library.Char_ord" "HOL-Library.List_Lexorder" "HOL-Library.AList"
begin

section \<open>Python values\<close>

text \<open>
  The program is a FastAPI service (\<open>backend/app.py\<close>) that keeps, for every user, a
  cache of query results, a log of the last lookups, the current predictions and three
  counters, all in module-level dictionaries. Python integers are \<open>int\<close>, strings are
  \<open>string\<close> (the characters are taken to be ASCII), the clock \<open>int(time.time())\<close> is an
  \<open>int\<close> handed to every operation.

  A Python float is modelled by the exact rational value of the double, or one of the
  three special values. The program only compares floats and stores them; the one
  division (the miss rate) is modelled by the exact quotient.
\<close>

datatype pyfloat = Finite rat | PosInf | NegInf | NaN

fun float_lt :: "pyfloat \<Rightarrow> pyfloat \<Rightarrow> bool" where
  "float_lt (Finite x) (Finite y) = (x < y)"
| "float_lt (Finite x) PosInf = True"
| "float_lt NegInf (Finite y) = True"
| "float_lt NegInf PosInf = True"
| "float_lt _ _ = False"

definition float_le :: "pyfloat \<Rightarrow> pyfloat \<Rightarrow> bool" where
  "float_le x y = (float_lt x y \<or> (x = y \<and> x \<noteq> NaN))"

text \<open>What \<open>json.loads\<close> and \<open>request.json()\<close> produce.\<close>

datatype pyval =
    PyNone
  | PyBool bool
  | PyInt int
  | PyFloat pyfloat
  | PyStr string
  | PyList "pyval list"
  | PyDict "(string \<times> pyval) list"

datatype error = KeyError | TypeError | AttributeError

text \<open>\<open>bool\<close> and \<open>int\<close> compare with a float by their exact value; anything else raises.\<close>

fun as_number :: "pyval \<Rightarrow> pyfloat option" where
  "as_number (PyBool b) = Some (Finite (if b then 1 else 0))"
| "as_number (PyInt i) = Some (Finite (of_int i))"
| "as_number (PyFloat f) = Some f"
| "as_number _ = None"

definition lt_float :: "pyval \<Rightarrow> pyfloat \<Rightarrow> error + bool" where
  \<comment> \<open>\<open>v < t\<close> for a float \<open>t\<close>\<close>
  "lt_float v t = (case as_number v of None \<Rightarrow> Inl TypeError | Some x \<Rightarrow> Inr (float_lt x t))"

fun subscript :: "pyval \<Rightarrow> string \<Rightarrow> error + pyval" where
  \<comment> \<open>\<open>v[key]\<close> for a string key\<close>
  "subscript (PyDict d) key = (case map_of d key of None \<Rightarrow> Inl KeyError | Some x \<Rightarrow> Inr x)"
| "subscript _ key = Inl TypeError"

fun py_get :: "pyval \<Rightarrow> string \<Rightarrow> pyval \<Rightarrow> error + pyval" where
  \<comment> \<open>\<open>v.get(key, default)\<close>\<close>
  "py_get (PyDict d) key dflt = (case map_of d key of None \<Rightarrow> Inr dflt | Some x \<Rightarrow> Inr x)"
| "py_get _ key dflt = Inl AttributeError"

section \<open>Constants of the module\<close>

definition CACHE_EXPIRY_SECONDS :: int where
  "CACHE_EXPIRY_SECONDS = 300"

definition N_HISTORY :: nat where
  "N_HISTORY = 3"

definition SIM_BACKEND_LATENCY :: int where
  "SIM_BACKEND_LATENCY = 500"

definition SIM_CACHE_LATENCY :: int where
  "SIM_CACHE_LATENCY = 30"

definition INITIAL_PREFETCH_CONFIDENCE_THRESHOLD :: pyfloat where
  \<comment> \<open>the double written \<open>0.6\<close>, which is \<open>0x1.3333333333333p-1\<close>\<close>
  "INITIAL_PREFETCH_CONFIDENCE_THRESHOLD = Finite (5404319552844595 / 9007199254740992)"

section \<open>The normalizer\<close>

definition isspace :: "char \<Rightarrow> bool" where
  \<comment> \<open>the ASCII characters that \<open>str.strip()\<close> removes\<close>
  "isspace c = (of_char c \<in> {9, 10, 11, 12, 13, 28, 29, 30, 31, 32 :: nat})"

definition strip :: "string \<Rightarrow> string" where
  "strip s = rev (dropWhile isspace (rev (dropWhile isspace s)))"

definition lower_char :: "char \<Rightarrow> char" where
  "lower_char c =
     (if 65 \<le> (of_char c :: nat) \<and> (of_char c :: nat) \<le> 90
      then char_of (of_char c + 32 :: nat) else c)"

definition lower :: "string \<Rightarrow> string" where
  "lower s = map lower_char s"

definition normalize_query :: "string \<Rightarrow> string" where
  "normalize_query query = lower (strip query)"

section \<open>The similarity ratio of difflib\<close>

text \<open>
  \<open>search\<close> calls \<open>difflib.get_close_matches\<close> of the Python standard library. Its
  \<open>SequenceMatcher\<close> is modelled here after \<open>Lib/difflib.py\<close>: no junk predicate, and
  the automatic junk heuristic, which removes the popular characters of the second
  sequence from the search for the longest block once that sequence has 200 characters.
  Positions are relative to the two slices that are compared.
\<close>

definition popular :: "string \<Rightarrow> char list" where
  "popular b =
     (if length b \<ge> 200
      then filter (\<lambda>elt. count_list b elt > length b div 100 + 1) (remdups b)
      else [])"

fun scan_row :: "nat \<Rightarrow> nat \<Rightarrow> nat list \<Rightarrow> nat \<times> nat \<times> nat \<Rightarrow> nat \<times> nat \<times> nat" where
  "scan_row i j [] best = best"
| "scan_row i j (k # ks) (besti, bestj, bestsize) =
     scan_row i (Suc j) ks
       (if k > bestsize then (i + 1 - k, j + 1 - k, k) else (besti, bestj, bestsize))"

fun next_row :: "char list \<Rightarrow> char \<Rightarrow> string \<Rightarrow> nat list \<Rightarrow> nat list" where
  \<comment> \<open>\<open>newj2len\<close>: the length of the block that ends at this row and at each column\<close>
  "next_row pop x b j2len =
     map (\<lambda>(y, k). if y = x \<and> y \<notin> set pop then k + 1 else 0) (zip b (0 # j2len))"

fun longest_rows ::
  "char list \<Rightarrow> string \<Rightarrow> nat \<Rightarrow> string \<Rightarrow> nat list \<Rightarrow> nat \<times> nat \<times> nat \<Rightarrow> nat \<times> nat \<times> nat" where
  "longest_rows pop b i [] j2len best = best"
| "longest_rows pop b i (x # a) j2len best =
     longest_rows pop b (Suc i) a (next_row pop x b j2len)
       (scan_row i 0 (next_row pop x b j2len) best)"

definition common_prefix_len :: "'a list \<Rightarrow> 'a list \<Rightarrow> nat" where
  "common_prefix_len xs ys = length (takeWhile (\<lambda>(x, y). x = y) (zip xs ys))"

definition find_longest_match :: "char list \<Rightarrow> string \<Rightarrow> string \<Rightarrow> nat \<times> nat \<times> nat" where
  "find_longest_match pop a b =
     (case longest_rows pop b 0 a (replicate (length b) 0) (0, 0, 0) of
        (besti, bestj, bestsize) \<Rightarrow>
          let l = common_prefix_len (rev (take besti a)) (rev (take bestj b));
              r = common_prefix_len (drop (besti + bestsize) a) (drop (bestj + bestsize) b)
          in (besti - l, bestj - l, bestsize + l + r))"

text \<open>
  The longest block found lies inside both slices, so the two recursive calls of the
  block search are on shorter slices.
\<close>

definition row_ok :: "nat \<Rightarrow> nat list \<Rightarrow> bool" where
  "row_ok n row = (\<forall>j<length row. row ! j \<le> n \<and> row ! j \<le> Suc j)"

lemma length_next_row: "length j2len = length b \<Longrightarrow> length (next_row pop x b j2len) = length b"
  by simp

lemma row_ok_next_row:
  assumes "row_ok n j2len" "length j2len = length b"
  shows "row_ok (Suc n) (next_row pop x b j2len)"
  unfolding row_ok_def
proof (intro allI impI)
  fix j assume j: "j < length (next_row pop x b j2len)"
  then have jb: "j < length b" using assms(2) by simp
  have prev: "(0 # j2len) ! j \<le> n \<and> (0 # j2len) ! j \<le> j"
  proof (cases j)
    case 0 then show ?thesis by simp
  next
    case (Suc j')
    then have "j' < length j2len" using jb assms(2) by simp
    then show ?thesis using assms(1) Suc by (simp add: row_ok_def)
  qed
  have "next_row pop x b j2len ! j =
      (if b ! j = x \<and> b ! j \<notin> set pop then (0 # j2len) ! j + 1 else 0)"
    using jb assms(2) by simp
  then show "next_row pop x b j2len ! j \<le> Suc n \<and> next_row pop x b j2len ! j \<le> Suc j"
    using prev by simp
qed

lemma scan_row_bound:
  assumes "\<forall>t<length ks. ks ! t \<le> Suc i \<and> ks ! t \<le> Suc (j + t)"
    and "fst best + snd (snd best) \<le> Suc i" "fst (snd best) + snd (snd best) \<le> j + length ks"
  shows "fst (scan_row i j ks best) + snd (snd (scan_row i j ks best)) \<le> Suc i
       \<and> fst (snd (scan_row i j ks best)) + snd (snd (scan_row i j ks best)) \<le> j + length ks"
  using assms
proof (induction ks arbitrary: j best)
  case Nil
  then show ?case by simp
next
  case (Cons k ks)
  obtain bi bj bs where best: "best = (bi, bj, bs)" by (cases best) auto
  let ?best' = "if k > bs then (i + 1 - k, j + 1 - k, k) else (bi, bj, bs)"
  have k: "k \<le> Suc i" "k \<le> Suc j" using Cons.prems(1) by force+
  have tl: "\<forall>t<length ks. ks ! t \<le> Suc i \<and> ks ! t \<le> Suc (Suc j + t)"
    using Cons.prems(1) by force
  have b1: "fst ?best' + snd (snd ?best') \<le> Suc i"
    using Cons.prems(2) k best by auto
  have b2: "fst (snd ?best') + snd (snd ?best') \<le> Suc j + length ks"
    using Cons.prems(3) k best by auto
  from Cons.IH[OF tl b1 b2] show ?case by (simp add: best)
qed

lemma longest_rows_bound:
  assumes "row_ok i j2len" "length j2len = length b"
    and "fst best + snd (snd best) \<le> i" "fst (snd best) + snd (snd best) \<le> length b"
  shows "fst (longest_rows pop b i a j2len best) + snd (snd (longest_rows pop b i a j2len best)) \<le> i + length a
       \<and> fst (snd (longest_rows pop b i a j2len best)) + snd (snd (longest_rows pop b i a j2len best)) \<le> length b"
  using assms
proof (induction a arbitrary: i j2len best)
  case Nil
  then show ?case by simp
next
  case (Cons x a)
  let ?row = "next_row pop x b j2len"
  have ok: "row_ok (Suc i) ?row" by (rule row_ok_next_row[OF Cons.prems(1,2)])
  have len: "length ?row = length b" using Cons.prems(2) by simp
  have pre: "\<forall>t<length ?row. ?row ! t \<le> Suc i \<and> ?row ! t \<le> Suc (0 + t)"
    using ok unfolding row_ok_def by simp
  have s: "fst (scan_row i 0 ?row best) + snd (snd (scan_row i 0 ?row best)) \<le> Suc i
       \<and> fst (snd (scan_row i 0 ?row best)) + snd (snd (scan_row i 0 ?row best)) \<le> 0 + length ?row"
    by (rule scan_row_bound[OF pre]) (use Cons.prems(3,4) len in auto)
  have "fst (longest_rows pop b (Suc i) a ?row (scan_row i 0 ?row best))
        + snd (snd (longest_rows pop b (Suc i) a ?row (scan_row i 0 ?row best))) \<le> Suc i + length a
      \<and> fst (snd (longest_rows pop b (Suc i) a ?row (scan_row i 0 ?row best)))
        + snd (snd (longest_rows pop b (Suc i) a ?row (scan_row i 0 ?row best))) \<le> length b"
    by (rule Cons.IH[OF ok len]) (use s len in auto)
  then show ?case by simp
qed

lemma common_prefix_len_le: "common_prefix_len xs ys \<le> length xs" "common_prefix_len xs ys \<le> length ys"
  unfolding common_prefix_len_def
  by (metis length_takeWhile_le length_zip min.cobounded1 order_trans)
    (metis length_takeWhile_le length_zip min.cobounded2 order_trans)

lemma find_longest_match_bound:
  assumes "find_longest_match pop a b = (i, j, k)"
  shows "i + k \<le> length a \<and> j + k \<le> length b"
proof -
  obtain bi bj bs where r: "longest_rows pop b 0 a (replicate (length b) 0) (0, 0, 0) = (bi, bj, bs)"
    by (metis prod_cases3)
  have "row_ok 0 (replicate (length b) 0)" by (simp add: row_ok_def)
  from longest_rows_bound[OF this, of b "(0,0,0)" pop a] r
  have b: "bi + bs \<le> length a" "bj + bs \<le> length b" by auto
  define l where "l = common_prefix_len (rev (take bi a)) (rev (take bj b))"
  define r' where "r' = common_prefix_len (drop (bi + bs) a) (drop (bj + bs) b)"
  have l: "l \<le> bi" "l \<le> bj"
    using common_prefix_len_le[of "rev (take bi a)" "rev (take bj b)"] unfolding l_def by auto
  have r': "r' \<le> length a - (bi + bs)" "r' \<le> length b - (bj + bs)"
    using common_prefix_len_le[of "drop (bi + bs) a" "drop (bj + bs) b"] unfolding r'_def by auto
  have "(i, j, k) = (bi - l, bj - l, bs + l + r')"
    using assms r unfolding find_longest_match_def l_def r'_def by (simp add: Let_def)
  then show ?thesis using b l r' by auto
qed

function matches :: "char list \<Rightarrow> string \<Rightarrow> string \<Rightarrow> nat" where
  "matches pop a b =
     (case find_longest_match pop a b of
        (i, j, k) \<Rightarrow>
          if k = 0 then 0
          else k
            + (if 0 < i \<and> 0 < j then matches pop (take i a) (take j b) else 0)
            + (if i + k < length a \<and> j + k < length b
               then matches pop (drop (i + k) a) (drop (j + k) b) else 0))"
  by pat_completeness auto
termination
  apply (relation "measure (\<lambda>(pop, a, b). length a + length b)")
    apply simp
   apply (auto dest: find_longest_match_bound [OF sym])
  done

definition ratio :: "string \<Rightarrow> string \<Rightarrow> rat" where
  "ratio a b =
     (if length a + length b = 0 then 1
      else 2 * of_nat (matches (popular b) a b) / of_nat (length a + length b))"

text \<open>
  \<open>get_close_matches(word, possibilities, n=1, cutoff=0.85)\<close>: the second sequence is
  the word, the first is the candidate; the candidates that reach the cutoff are paired
  with their score and \<open>heapq.nlargest(1, ...)\<close> returns \<open>max\<close> of the pairs, compared
  as tuples (score first, then the strings). The two quick ratios that difflib tests
  first are upper bounds of \<open>ratio\<close> and filter nothing more. The exact quotient reaches
  \<open>17/20\<close> exactly when the computed double reaches the double \<open>0.85\<close>, for sequences
  of any realistic length (the two differ by at least \<open>1/(20 * length)\<close>).
\<close>

definition tuple_less :: "rat \<times> string \<Rightarrow> rat \<times> string \<Rightarrow> bool" where
  "tuple_less p q = (fst p < fst q \<or> fst p = fst q \<and> snd p < snd q)"

fun py_max :: "(rat \<times> string) list \<Rightarrow> (rat \<times> string) option" where
  "py_max [] = None"
| "py_max (x # xs) = Some (fold (\<lambda>y m. if tuple_less m y then y else m) xs x)"

definition get_close_matches :: "string \<Rightarrow> string list \<Rightarrow> string list" where
  "get_close_matches word possibilities =
     (case py_max (map (\<lambda>x. (ratio x word, x))
                     (filter (\<lambda>x. ratio x word \<ge> 17 / 20) possibilities)) of
        None \<Rightarrow> []
      | Some (score, x) \<Rightarrow> [x])"

section \<open>The data model\<close>

text \<open>
  A cache entry is the dictionary with the keys \<open>result\<close>, \<open>timestamp\<close>, \<open>expiry\<close>,
  \<open>source\<close> and, for a prefetched entry only, \<open>LLM_Confidence\<close>. A user's cache is a
  Python \<open>dict\<close>, which keeps its keys in insertion order: an association list, where
  \<open>cache[k] = e\<close> is \<open>AList.update k e\<close> (in place for a known key, at the end for a new
  one) and \<open>cache.get(k)\<close> is \<open>map_of cache k\<close>.
\<close>

record entry =
  result :: string
  timestamp :: int
  expiry :: int
  source :: string
  LLM_Confidence :: "pyval option"

type_synonym cache = "(string \<times> entry) list"

record hit =
  hit_query :: string
  hit_source :: string
  hit_time :: int

record analytics =
  api_calls_saved :: int
  total_backend_calls :: int
  total_cache_hits :: int

text \<open>The four module-level dictionaries keyed by user, and the mutable threshold.\<close>

record state =
  USER_CACHE :: "string \<rightharpoonup> cache"
  USER_HIT_LOG :: "string \<rightharpoonup> hit list"
  USER_PREDICTIONS :: "string \<rightharpoonup> pyval list"
  USER_ANALYTICS :: "string \<rightharpoonup> analytics"
  PREFETCH_CONFIDENCE_THRESHOLD :: pyfloat

definition initial_state :: state where
  "initial_state =
     \<lparr>USER_CACHE = Map.empty, USER_HIT_LOG = Map.empty, USER_PREDICTIONS = Map.empty,
      USER_ANALYTICS = Map.empty,
      PREFETCH_CONFIDENCE_THRESHOLD = INITIAL_PREFETCH_CONFIDENCE_THRESHOLD\<rparr>"

section \<open>The prediction client\<close>

text \<open>
  The HTTP exchange with the model is outside the program: its outcome is an input.
  \<open>RequestFailed\<close> stands for any exception of the request, of \<open>raise_for_status\<close> or of
  the path to the message content (a content that is not a string included).
  \<open>json.loads\<close> is a parameter \<open>loads\<close>: it is only ever applied to a text that starts
  with a bracket, so it yields a list or raises (\<open>None\<close>).
\<close>

datatype llm_reply = RequestFailed | Content string

definition re_search_array :: "string \<Rightarrow> string option" where
  \<comment> \<open>\<open>re.search(r'\[.*?\]', content, re.DOTALL)\<close>: from the first \<open>[\<close> to the first \<open>]\<close> after it\<close>
  "re_search_array content =
     (case dropWhile (\<lambda>c. c \<noteq> CHR ''['') content of
        [] \<Rightarrow> None
      | c # rest \<Rightarrow>
          (if dropWhile (\<lambda>c. c \<noteq> CHR '']'') rest = [] then None
           else Some (c # takeWhile (\<lambda>c. c \<noteq> CHR '']'') rest @ '']'')))"

definition replace_quotes :: "string \<Rightarrow> string" where
  \<comment> \<open>\<open>json_str.replace("'", '"')\<close>\<close>
  "replace_quotes json_str = map (\<lambda>c. if c = CHR 0x27 then CHR 0x22 else c) json_str"

definition get_predictions_from_llm ::
  "(string \<Rightarrow> pyval list option) \<Rightarrow> string list \<Rightarrow> llm_reply \<Rightarrow> pyval list" where
  "get_predictions_from_llm loads history reply =
     (case reply of
        RequestFailed \<Rightarrow> []
      | Content content \<Rightarrow>
          (case re_search_array content of
             None \<Rightarrow> []
           | Some json_str \<Rightarrow>
               (case loads (replace_quotes json_str) of
                  None \<Rightarrow> []
                | Some predictions \<Rightarrow> predictions)))"

section \<open>Prefetch\<close>

definition is_fresh :: "int \<Rightarrow> entry \<Rightarrow> bool" where
  \<comment> \<open>\<open>(now - entry["timestamp"]) < CACHE_EXPIRY_SECONDS\<close>\<close>
  "is_fresh now e = (now - timestamp e < CACHE_EXPIRY_SECONDS)"

definition prefetch_one :: "pyfloat \<Rightarrow> int \<Rightarrow> pyval \<Rightarrow> cache \<Rightarrow> error + cache" where
  \<comment> \<open>the body of the loop of \<open>prefetch_predictions\<close>; \<open>Inl\<close> is the exception that ends the loop\<close>
  "prefetch_one threshold now pred cache =
     (case subscript pred ''query'' of
        Inl e \<Rightarrow> Inl e
      | Inr (PyStr pq) \<Rightarrow>
          (let q = normalize_query pq in
           case py_get pred ''confidence'' (PyFloat (Finite 1)) of
             Inl e \<Rightarrow> Inl e
           | Inr conf \<Rightarrow>
               (case lt_float conf threshold of
                  Inl e \<Rightarrow> Inl e
                | Inr True \<Rightarrow> Inr cache
                | Inr False \<Rightarrow>
                    (if (case map_of cache q of Some e \<Rightarrow> is_fresh now e | None \<Rightarrow> False)
                     then Inr cache
                     else Inr (AList.update q
                            \<lparr>result = ''Predicted backend result for '' @ pq,
                             timestamp = now,
                             expiry = CACHE_EXPIRY_SECONDS,
                             source = ''predicted'',
                             LLM_Confidence = Some conf\<rparr> cache))))
      | Inr _ \<Rightarrow> Inl AttributeError)"

fun prefetch_predictions :: "pyfloat \<Rightarrow> int \<Rightarrow> pyval list \<Rightarrow> cache \<Rightarrow> error option \<times> cache" where
  \<comment> \<open>the cache as the loop leaves it, and the exception that ended it early, if any\<close>
  "prefetch_predictions threshold now [] cache = (None, cache)"
| "prefetch_predictions threshold now (pred # predictions) cache =
     (case prefetch_one threshold now pred cache of
        Inl e \<Rightarrow> (Some e, cache)
      | Inr cache' \<Rightarrow> prefetch_predictions threshold now predictions cache')"

section \<open>The endpoints\<close>

definition ensure_user :: "state \<Rightarrow> string \<Rightarrow> state" where
  \<comment> \<open>lines 104 to 112 of \<open>get_user_data\<close>: the four entries of a user not yet in \<open>USER_CACHE\<close>\<close>
  "ensure_user g user =
     (if USER_CACHE g user = None
      then g\<lparr>USER_CACHE := (USER_CACHE g)(user \<mapsto> []),
             USER_HIT_LOG := (USER_HIT_LOG g)(user \<mapsto> []),
             USER_PREDICTIONS := (USER_PREDICTIONS g)(user \<mapsto> []),
             USER_ANALYTICS := (USER_ANALYTICS g)(user \<mapsto>
               \<lparr>api_calls_saved = 0, total_backend_calls = 0, total_cache_hits = 0\<rparr>)\<rparr>
      else g)"

definition get_user_data ::
  "state \<Rightarrow> string \<Rightarrow> error + ((cache \<times> hit list \<times> pyval list \<times> analytics) \<times> state)" where
  \<comment> \<open>the four subscripts of the \<open>return\<close> raise \<open>KeyError\<close> on a missing key; the state is then as it was\<close>
  "get_user_data g user =
     (let g' = ensure_user g user
      in case (USER_CACHE g' user, USER_HIT_LOG g' user, USER_PREDICTIONS g' user,
               USER_ANALYTICS g' user) of
           (Some cache, Some hit_log, Some predictions, Some an) \<Rightarrow>
             Inr ((cache, hit_log, predictions, an), g')
         | _ \<Rightarrow> Inl KeyError)"

record response =
  r_result :: string
  r_source :: string

definition cache_lookup :: "cache \<Rightarrow> string \<Rightarrow> error + (entry option \<times> bool \<times> string option)" where
  \<comment> \<open>lines 120 to 129 of \<open>search\<close>: \<open>(cache_entry, fuzzy_used, fuzzy_key)\<close>\<close>
  "cache_lookup cache norm_query =
     (case map_of cache norm_query of
        Some e \<Rightarrow> Inr (Some e, False, None)
      | None \<Rightarrow>
          (case get_close_matches norm_query (map fst cache) of
             [] \<Rightarrow> Inr (None, False, None)
           | fuzzy_key # _ \<Rightarrow>
               (case map_of cache fuzzy_key of
                  None \<Rightarrow> Inl KeyError
                | Some e \<Rightarrow> Inr (Some e, True, Some fuzzy_key))))"

definition count_hit :: "analytics \<Rightarrow> analytics" where
  "count_hit an = an\<lparr>api_calls_saved := api_calls_saved an + 1,
                     total_cache_hits := total_cache_hits an + 1\<rparr>"

definition backend_fill ::
  "cache \<Rightarrow> analytics \<Rightarrow> string \<Rightarrow> string \<Rightarrow> int \<Rightarrow> string \<times> string \<times> cache \<times> analytics" where
  \<comment> \<open>lines 150 to 159 of \<open>search\<close>, the \<open>else\<close> branch\<close>
  "backend_fill cache an query norm_query now =
     (''Backend result for '' @ query,
      ''backend'',
      AList.update norm_query
        \<lparr>result = ''Backend result for '' @ query,
         timestamp = now,
         expiry = CACHE_EXPIRY_SECONDS,
         source = ''backend'',
         LLM_Confidence = None\<rparr> cache,
      an\<lparr>total_backend_calls := total_backend_calls an + 1\<rparr>)"

definition resolve ::
  "cache \<Rightarrow> analytics \<Rightarrow> entry option \<Rightarrow> bool \<Rightarrow> string \<Rightarrow> string \<Rightarrow> int
     \<Rightarrow> string \<times> string \<times> cache \<times> analytics" where
  \<comment> \<open>lines 130 to 159 of \<open>search\<close>: \<open>(result, source)\<close> and the cache and counters as left\<close>
  "resolve cache an cache_entry fuzzy_used query norm_query now =
     (case cache_entry of
        None \<Rightarrow> backend_fill cache an query norm_query now
      | Some e \<Rightarrow>
          (if is_fresh now e
           then (if fuzzy_used then (result e, ''fuzzy_cache'', cache, count_hit an)
                 else if source e = ''backend'' then (result e, ''cache'', cache, count_hit an)
                 else (result e, source e, cache, count_hit an))
           else backend_fill cache an query norm_query now))"

definition record_hit :: "hit list \<Rightarrow> hit \<Rightarrow> hit list" where
  \<comment> \<open>lines 160 to 162: \<open>append\<close>, then \<open>pop(0)\<close> once the length passes 10\<close>
  "record_hit hit_log h =
     (let hit_log' = hit_log @ [h]
      in if length hit_log' > 10 then tl hit_log' else hit_log')"

definition search ::
  "state \<Rightarrow> string \<Rightarrow> string \<Rightarrow> int \<Rightarrow> error + (response \<times> (string \<times> string list) \<times> state)" where
  \<comment> \<open>the response, the background thread that is started (user and history), the state\<close>
  "search g query user now =
     (case get_user_data g user of
        Inl e \<Rightarrow> Inl e
      | Inr ((cache, hit_log, predictions, an), g1) \<Rightarrow>
          (let norm_query = normalize_query query in
           case cache_lookup cache norm_query of
             Inl e \<Rightarrow> Inl e
           | Inr (cache_entry, fuzzy_used, fuzzy_key) \<Rightarrow>
               (case resolve cache an cache_entry fuzzy_used query norm_query now of
                  (res, src, cache', an') \<Rightarrow>
                    (let hit_log' = record_hit hit_log
                           \<lparr>hit_query = query, hit_source = src, hit_time = now\<rparr>;
                         history = map hit_query (drop (length hit_log' - N_HISTORY) hit_log')
                     in Inr (\<lparr>r_result = res, r_source = src\<rparr>,
                             (user, history),
                             g1\<lparr>USER_CACHE := (USER_CACHE g1)(user \<mapsto> cache'),
                                USER_HIT_LOG := (USER_HIT_LOG g1)(user \<mapsto> hit_log'),
                                USER_ANALYTICS := (USER_ANALYTICS g1)(user \<mapsto> an')\<rparr>)))))"

definition predict_and_prefetch ::
  "(string \<Rightarrow> pyval list option) \<Rightarrow> state \<Rightarrow> string \<Rightarrow> string list \<Rightarrow> llm_reply \<Rightarrow> int
     \<Rightarrow> error option \<times> state" where
  \<comment> \<open>the background thread of \<open>search\<close>; its \<open>cache\<close> is the user's dictionary, which is never rebound\<close>
  "predict_and_prefetch loads g user history reply now =
     (let preds = get_predictions_from_llm loads history reply;
          g1 = g\<lparr>USER_PREDICTIONS := (USER_PREDICTIONS g)(user \<mapsto> preds)\<rparr>
      in case USER_CACHE g1 user of
           None \<Rightarrow> (None, g1)
         | Some cache \<Rightarrow>
             (case prefetch_predictions (PREFETCH_CONFIDENCE_THRESHOLD g1) now preds cache of
                (err, cache') \<Rightarrow> (err, g1\<lparr>USER_CACHE := (USER_CACHE g1)(user \<mapsto> cache')\<rparr>)))"

record dashboard_view =
  d_cache :: "(string \<times> string \<times> int) list"
  d_last_10_hits :: "hit list"
  d_miss_rate :: rat
  d_predictions :: "pyval list"
  d_api_calls_saved :: int
  d_total_backend_calls :: int
  d_total_cache_hits :: int
  d_avg_latency_saved :: rat

definition cache_list :: "cache \<Rightarrow> int \<Rightarrow> (string \<times> string \<times> int) list" where
  \<comment> \<open>\<open>(query, source, expires_in)\<close> of the entries with \<open>expires_in > 0\<close>\<close>
  "cache_list cache now =
     map (\<lambda>(q, e). (q, source e, expiry e - (now - timestamp e)))
       (filter (\<lambda>(q, e). expiry e - (now - timestamp e) > 0) cache)"

definition miss_count :: "hit list \<Rightarrow> nat" where
  "miss_count hit_log = length (filter (\<lambda>h. hit_source h = ''backend'') hit_log)"

definition hit_count :: "hit list \<Rightarrow> nat" where
  "hit_count hit_log =
     length (filter (\<lambda>h. hit_source h \<in> set [''cache'', ''predicted'', ''fuzzy_cache'']) hit_log)"

definition miss_rate :: "hit list \<Rightarrow> rat" where
  "miss_rate hit_log =
     (if miss_count hit_log + hit_count hit_log > 0
      then of_nat (miss_count hit_log) / of_nat (miss_count hit_log + hit_count hit_log)
      else 0)"

definition avg_latency_saved :: "analytics \<Rightarrow> rat" where
  "avg_latency_saved an =
     (let total_calls = total_backend_calls an + total_cache_hits an
      in if total_calls > 0
         then of_int (api_calls_saved an * (SIM_BACKEND_LATENCY - SIM_CACHE_LATENCY))
              / of_int total_calls
         else 0)"

definition dashboard :: "state \<Rightarrow> string \<Rightarrow> int \<Rightarrow> error + (dashboard_view \<times> state)" where
  "dashboard g user now =
     (case get_user_data g user of
        Inl e \<Rightarrow> Inl e
      | Inr ((cache, hit_log, predictions, an), g1) \<Rightarrow>
          Inr (\<lparr>d_cache = cache_list cache now,
                d_last_10_hits = hit_log,
                d_miss_rate = miss_rate hit_log,
                d_predictions = predictions,
                d_api_calls_saved = api_calls_saved an,
                d_total_backend_calls = total_backend_calls an,
                d_total_cache_hits = total_cache_hits an,
                d_avg_latency_saved = avg_latency_saved an\<rparr>, g1))"

definition get_predictions :: "state \<Rightarrow> string \<Rightarrow> error + (pyval list \<times> state)" where
  "get_predictions g user =
     (case get_user_data g user of
        Inl e \<Rightarrow> Inl e
      | Inr ((cache, hit_log, predictions, an), g1) \<Rightarrow> Inr (predictions, g1))"

datatype confidence_response = Success pyfloat | Invalid_confidence_value

definition set_confidence :: "state \<Rightarrow> pyval \<Rightarrow> error + (confidence_response \<times> state)" where
  \<comment> \<open>\<open>data\<close> is the parsed body; \<open>Invalid_confidence_value\<close> is the answer with status 400\<close>
  "set_confidence g data =
     (case py_get data ''confidence'' PyNone of
        Inl e \<Rightarrow> Inl e
      | Inr (PyFloat conf) \<Rightarrow>
          (if float_le (Finite 0) conf \<and> float_le conf (Finite 1)
           then Inr (Success conf, g\<lparr>PREFETCH_CONFIDENCE_THRESHOLD := conf\<rparr>)
           else Inr (Invalid_confidence_value, g))
      | Inr _ \<Rightarrow> Inr (Invalid_confidence_value, g))"

definition refresh :: "state \<Rightarrow> string \<Rightarrow> string \<Rightarrow> int \<Rightarrow> error + (string \<times> state)" where
  "refresh g query user now =
     (case get_user_data g user of
        Inl e \<Rightarrow> Inl e
      | Inr ((cache, hit_log, predictions, an), g1) \<Rightarrow>
          (let norm_query = normalize_query query;
               res = ''Backend result for '' @ query @ '' (refreshed)''
           in Inr (res,
                   g1\<lparr>USER_CACHE := (USER_CACHE g1)(user \<mapsto>
                        AList.update norm_query
                          \<lparr>result = res,
                           timestamp = now,
                           expiry = CACHE_EXPIRY_SECONDS,
                           source = ''backend'',
                           LLM_Confidence = None\<rparr> cache)\<rparr>)))"

text \<open>
  The rows handed to \<open>csv.writer\<close>, cell by cell (the header first); the JSON export is
  the three structures as they are.
\<close>

datatype cell = CellStr string | CellInt int

datatype export_result =
    ExportData cache "hit list" "pyval list"
  | ExportCsv "cell list list"

definition csv_rows :: "cache \<Rightarrow> cell list list" where
  "csv_rows cache =
     [CellStr ''query'', CellStr ''source'', CellStr ''timestamp'', CellStr ''expiry'']
     # map (\<lambda>(q, e). [CellStr q, CellStr (source e), CellInt (timestamp e), CellInt (expiry e)])
         cache"

definition export_dashboard :: "state \<Rightarrow> string \<Rightarrow> string \<Rightarrow> error + (export_result \<times> state)" where
  "export_dashboard g fmt user =
     (case get_user_data g user of
        Inl e \<Rightarrow> Inl e
      | Inr ((cache, hit_log, predictions, an), g1) \<Rightarrow>
          (if fmt = ''csv'' then Inr (ExportCsv (csv_rows cache), g1)
           else Inr (ExportData cache hit_log predictions, g1)))"

section \<open>The running service\<close>

text \<open>
  Requests are handled one after the other; each \<open>search\<close> starts a background thread,
  which is kept with its user and its history until it runs. A request that raises
  leaves the state as it was. \<open>Background n reply now\<close> runs the \<open>n\<close>-th waiting thread
  with the model's reply, as one step.
\<close>

record system =
  mem :: state
  threads :: "(string \<times> string list) list"

datatype event =
    Search string string int
  | Dashboard string int
  | GetPredictions string
  | SetConfidence pyval
  | Refresh string string int
  | Export string string
  | Background nat llm_reply int

fun step :: "(string \<Rightarrow> pyval list option) \<Rightarrow> system \<Rightarrow> event \<Rightarrow> system" where
  "step loads s (Search query user now) =
     (case search (mem s) query user now of
        Inl e \<Rightarrow> s
      | Inr (resp, thread, g) \<Rightarrow> \<lparr>mem = g, threads = threads s @ [thread]\<rparr>)"
| "step loads s (Dashboard user now) =
     (case dashboard (mem s) user now of Inl e \<Rightarrow> s | Inr (view, g) \<Rightarrow> s\<lparr>mem := g\<rparr>)"
| "step loads s (GetPredictions user) =
     (case get_predictions (mem s) user of Inl e \<Rightarrow> s | Inr (preds, g) \<Rightarrow> s\<lparr>mem := g\<rparr>)"
| "step loads s (SetConfidence data) =
     (case set_confidence (mem s) data of Inl e \<Rightarrow> s | Inr (resp, g) \<Rightarrow> s\<lparr>mem := g\<rparr>)"
| "step loads s (Refresh query user now) =
     (case refresh (mem s) query user now of Inl e \<Rightarrow> s | Inr (res, g) \<Rightarrow> s\<lparr>mem := g\<rparr>)"
| "step loads s (Export fmt user) =
     (case export_dashboard (mem s) fmt user of Inl e \<Rightarrow> s | Inr (out, g) \<Rightarrow> s\<lparr>mem := g\<rparr>)"
| "step loads s (Background n reply now) =
     (if n < length (threads s)
      then (case threads s ! n of
              (user, history) \<Rightarrow>
                \<lparr>mem = snd (predict_and_prefetch loads (mem s) user history reply now),
                 threads = take n (threads s) @ drop (Suc n) (threads s)\<rparr>)
      else s)"

definition initial_system :: system where
  "initial_system = \<lparr>mem = initial_state, threads = []\<rparr>"

definition run :: "(string \<Rightarrow> pyval list option) \<Rightarrow> event list \<Rightarrow> system" where
  "run loads evs = foldl (step loads) initial_system evs"

text \<open>The records that the lookups of one user append, in order, along a run.\<close>

fun lookups_of :: "(string \<Rightarrow> pyval list option) \<Rightarrow> string \<Rightarrow> system \<Rightarrow> event list \<Rightarrow> hit list" where
  "lookups_of loads u s [] = []"
| "lookups_of loads u s (ev # evs) =
     (case ev of
        Search query user now \<Rightarrow>
          (if user = u
           then (case search (mem s) query user now of
                   Inl e \<Rightarrow> []
                 | Inr (resp, thread, g) \<Rightarrow>
                     [\<lparr>hit_query = query, hit_source = r_source resp, hit_time = now\<rparr>])
           else [])
      | _ \<Rightarrow> [])
     @ lookups_of loads u (step loads s ev) evs"

text \<open>The query and the time of the lookups of one user among the events.\<close>

fun lookup_requests :: "string \<Rightarrow> event list \<Rightarrow> (string \<times> int) list" where
  "lookup_requests u [] = []"
| "lookup_requests u (Search query user now # evs) =
     (if user = u then [(query, now)] else []) @ lookup_requests u evs"
| "lookup_requests u (ev # evs) = lookup_requests u evs"

section \<open>Invariants\<close>

definition cache_ok :: "cache \<Rightarrow> bool" where
  "cache_ok cache =
     (distinct (map fst cache) \<and>
      (\<forall>(k, e) \<in> set cache.
         expiry e = CACHE_EXPIRY_SECONDS \<and> (source e = ''backend'' \<or> source e = ''predicted'')))"

definition known_source :: "string \<Rightarrow> bool" where
  "known_source src = (src \<in> set [''backend'', ''cache'', ''predicted'', ''fuzzy_cache''])"

definition state_ok :: "state \<Rightarrow> bool" where
  "state_ok g =
     (dom (USER_HIT_LOG g) = dom (USER_CACHE g) \<and>
      dom (USER_PREDICTIONS g) = dom (USER_CACHE g) \<and>
      dom (USER_ANALYTICS g) = dom (USER_CACHE g) \<and>
      (\<forall>u c. USER_CACHE g u = Some c \<longrightarrow> cache_ok c) \<and>
      (\<forall>u l. USER_HIT_LOG g u = Some l \<longrightarrow>
         length l \<le> 10 \<and> (\<forall>h \<in> set l. known_source (hit_source h))) \<and>
      (\<exists>r. PREFETCH_CONFIDENCE_THRESHOLD g = Finite r \<and> 0 \<le> r \<and> r \<le> 1))"

definition same_users :: "state \<Rightarrow> bool" where
  "same_users g =
     (dom (USER_HIT_LOG g) = dom (USER_CACHE g) \<and> dom (USER_PREDICTIONS g) = dom (USER_CACHE g)
      \<and> dom (USER_ANALYTICS g) = dom (USER_CACHE g))"

definition system_ok :: "system \<Rightarrow> bool" where
  "system_ok s = (state_ok (mem s) \<and> (\<forall>(u, h) \<in> set (threads s). u \<in> dom (USER_CACHE (mem s))))"

text \<open>
  A user's data as \<open>get_user_data\<close> hands it out: empty, with the counters at zero, for a
  user who is not in \<open>USER_CACHE\<close> yet.
\<close>

definition cache_of :: "state \<Rightarrow> string \<Rightarrow> cache" where
  "cache_of g user = (case USER_CACHE g user of None \<Rightarrow> [] | Some cache \<Rightarrow> cache)"

definition log_of :: "state \<Rightarrow> string \<Rightarrow> hit list" where
  "log_of g user = (case USER_HIT_LOG g user of None \<Rightarrow> [] | Some hit_log \<Rightarrow> hit_log)"

definition predictions_of :: "state \<Rightarrow> string \<Rightarrow> pyval list" where
  "predictions_of g user = (case USER_PREDICTIONS g user of None \<Rightarrow> [] | Some preds \<Rightarrow> preds)"

definition counters_of :: "state \<Rightarrow> string \<Rightarrow> analytics" where
  "counters_of g user =
     (case USER_ANALYTICS g user of
        None \<Rightarrow> \<lparr>api_calls_saved = 0, total_backend_calls = 0, total_cache_hits = 0\<rparr>
      | Some an \<Rightarrow> an)"

section \<open>Example runs\<close>

definition loads_fails :: "string \<Rightarrow> pyval list option" where
  \<comment> \<open>a \<open>json.loads\<close> that rejects every text\<close>
  "loads_fails s = None"

definition one_lookup :: system where
  "one_lookup = run loads_fails [Search ''Weather in Delhi'' ''guest'' 0]"

definition stale_and_live :: system where
  \<comment> \<open>at time 300 the first key has run out, the second, written at 100, has not\<close>
  "stale_and_live = run loads_fails
     [Search ''weather in delhi'' ''guest'' 0, Refresh ''weather in delh'' ''guest'' 100]"

definition fifteen_lookups :: "event list" where
  "fifteen_lookups =
     [Search ''a'' ''guest'' 1, Search ''b'' ''guest'' 2, Search ''c'' ''guest'' 3,
      Search ''d'' ''guest'' 4, Search ''e'' ''guest'' 5, Search ''f'' ''guest'' 6,
      Search ''g'' ''guest'' 7, Search ''h'' ''guest'' 8, Search ''i'' ''guest'' 9,
      Search ''j'' ''guest'' 10, Search ''k'' ''guest'' 11, Search ''l'' ''guest'' 12,
      Search ''m'' ''guest'' 13, Search ''n'' ''guest'' 14, Search ''o'' ''guest'' 15]"

definition malformed_first :: "pyval list" where
  \<comment> \<open>a candidate without \<open>query\<close>, then a well-formed one\<close>
  "malformed_first =
     [PyDict [(''confidence'', PyFloat (Finite (9 / 10)))],
      PyDict [(''query'', PyStr ''b''), (''confidence'', PyFloat (Finite (9 / 10)))]]"

definition loads_example :: "string \<Rightarrow> pyval list option" where
  \<comment> \<open>a \<open>json.loads\<close> that parses one text, an array of one candidate, and rejects the others\<close>
  "loads_example s =
     (if s = replace_quotes ''[{'query': 'Weather Tomorrow', 'confidence': 0.5}]''
      then Some [PyDict [(''query'', PyStr ''Weather Tomorrow''),
                         (''confidence'', PyFloat (Finite (1 / 2)))]]
      else None)"

definition example_reply :: llm_reply where
  "example_reply =
     Content ''Here you go: [{'query': 'Weather Tomorrow', 'confidence': 0.5}] Hope it helps.''"

definition threshold_lowered :: system where
  \<comment> \<open>one lookup, then the threshold set to the double written \<open>0.4\<close>\<close>
  "threshold_lowered = run loads_fails
     [Search ''Weather in Delhi'' ''guest'' 0,
      SetConfidence (PyDict [(''confidence'',
        PyFloat (Finite (3602879701896397 / 9007199254740992)))])]"

section \<open>Basic facts\<close>

lemma state_ok_initial: "state_ok initial_state"
  unfolding state_ok_def initial_state_def INITIAL_PREFETCH_CONFIDENCE_THRESHOLD_def
  by (auto intro!: exI[of _ "5404319552844595 / 9007199254740992"])

lemma get_user_data_unseen:
  assumes "USER_CACHE g user = None"
  shows "get_user_data g user =
     Inr (([], [], [], \<lparr>api_calls_saved = 0, total_backend_calls = 0, total_cache_hits = 0\<rparr>),
          g\<lparr>USER_CACHE := (USER_CACHE g)(user \<mapsto> []),
            USER_HIT_LOG := (USER_HIT_LOG g)(user \<mapsto> []),
            USER_PREDICTIONS := (USER_PREDICTIONS g)(user \<mapsto> []),
            USER_ANALYTICS := (USER_ANALYTICS g)(user \<mapsto>
              \<lparr>api_calls_saved = 0, total_backend_calls = 0, total_cache_hits = 0\<rparr>)\<rparr>)"
  using assms by (simp add: get_user_data_def ensure_user_def)

lemma get_user_data_seen:
  assumes "state_ok g" "USER_CACHE g user = Some cache"
  shows "\<exists>hit_log preds an. USER_HIT_LOG g user = Some hit_log \<and> USER_PREDICTIONS g user = Some preds
     \<and> USER_ANALYTICS g user = Some an
     \<and> get_user_data g user = Inr ((cache, hit_log, preds, an), g)"
proof -
  have "user \<in> dom (USER_HIT_LOG g)" "user \<in> dom (USER_PREDICTIONS g)" "user \<in> dom (USER_ANALYTICS g)"
    using assms unfolding state_ok_def by auto
  then obtain hit_log preds an where "USER_HIT_LOG g user = Some hit_log"
    "USER_PREDICTIONS g user = Some preds" "USER_ANALYTICS g user = Some an" by auto
  then show ?thesis using assms(2) by (simp add: get_user_data_def ensure_user_def)
qed

lemma cache_ok_Nil: "cache_ok []"
  by (simp add: cache_ok_def)

lemma state_ok_create:
  assumes "state_ok g" "USER_CACHE g user = None"
  shows "state_ok (g\<lparr>USER_CACHE := (USER_CACHE g)(user \<mapsto> []),
            USER_HIT_LOG := (USER_HIT_LOG g)(user \<mapsto> []),
            USER_PREDICTIONS := (USER_PREDICTIONS g)(user \<mapsto> []),
            USER_ANALYTICS := (USER_ANALYTICS g)(user \<mapsto>
              \<lparr>api_calls_saved = 0, total_backend_calls = 0, total_cache_hits = 0\<rparr>)\<rparr>)"
  using assms unfolding state_ok_def by (auto simp: cache_ok_Nil)

lemma get_user_data_ok:
  assumes "state_ok g"
  shows "\<exists>cache hit_log preds an g1. get_user_data g user = Inr ((cache, hit_log, preds, an), g1)
     \<and> state_ok g1 \<and> USER_CACHE g1 user = Some cache \<and> USER_HIT_LOG g1 user = Some hit_log
     \<and> USER_PREDICTIONS g1 user = Some preds \<and> USER_ANALYTICS g1 user = Some an
     \<and> dom (USER_CACHE g1) = insert user (dom (USER_CACHE g))
     \<and> PREFETCH_CONFIDENCE_THRESHOLD g1 = PREFETCH_CONFIDENCE_THRESHOLD g"
proof (cases "USER_CACHE g user")
  case None
  show ?thesis
    unfolding get_user_data_unseen[OF None]
    using state_ok_create[OF assms None] by simp
next
  case (Some cache)
  from get_user_data_seen[OF assms Some] Some assms show ?thesis by auto
qed

lemma get_user_data_result:
  assumes "state_ok g" "get_user_data g user = Inr ((cache, hit_log, preds, an), g1)"
  shows "state_ok g1 \<and> USER_CACHE g1 user = Some cache \<and> USER_HIT_LOG g1 user = Some hit_log
     \<and> USER_PREDICTIONS g1 user = Some preds \<and> USER_ANALYTICS g1 user = Some an
     \<and> dom (USER_CACHE g1) = insert user (dom (USER_CACHE g))
     \<and> PREFETCH_CONFIDENCE_THRESHOLD g1 = PREFETCH_CONFIDENCE_THRESHOLD g
     \<and> cache_ok cache \<and> length hit_log \<le> 10 \<and> (\<forall>h \<in> set hit_log. known_source (hit_source h))"
proof -
  from get_user_data_ok[OF assms(1), of user] assms(2)
  have *: "state_ok g1" "USER_CACHE g1 user = Some cache" "USER_HIT_LOG g1 user = Some hit_log"
     "USER_PREDICTIONS g1 user = Some preds" "USER_ANALYTICS g1 user = Some an"
     "dom (USER_CACHE g1) = insert user (dom (USER_CACHE g))"
     "PREFETCH_CONFIDENCE_THRESHOLD g1 = PREFETCH_CONFIDENCE_THRESHOLD g" by auto
  then show ?thesis unfolding state_ok_def by blast
qed

lemma ensure_user_seen: "USER_CACHE g user = Some cache \<Longrightarrow> ensure_user g user = g"
  by (simp add: ensure_user_def)

lemma ensure_user_views:
  "cache_of (ensure_user g user) u = cache_of g u"
  "PREFETCH_CONFIDENCE_THRESHOLD (ensure_user g user) = PREFETCH_CONFIDENCE_THRESHOLD g"
  by (simp_all add: ensure_user_def cache_of_def)

lemma ensure_user_views_ok:
  assumes "state_ok g"
  shows "log_of (ensure_user g user) u = log_of g u"
    "predictions_of (ensure_user g user) u = predictions_of g u"
    "counters_of (ensure_user g user) u = counters_of g u"
proof -
  have "USER_HIT_LOG g user = None" "USER_PREDICTIONS g user = None" "USER_ANALYTICS g user = None"
    if "USER_CACHE g user = None"
    using that assms unfolding state_ok_def by (metis domIff)+
  then show "log_of (ensure_user g user) u = log_of g u"
    "predictions_of (ensure_user g user) u = predictions_of g u"
    "counters_of (ensure_user g user) u = counters_of g u"
    by (simp_all add: ensure_user_def log_of_def predictions_of_def counters_of_def)
qed

lemma get_user_data_view:
  assumes "state_ok g"
  shows "get_user_data g user =
     Inr ((cache_of g user, log_of g user, predictions_of g user, counters_of g user),
          ensure_user g user)"
proof (cases "USER_CACHE g user")
  case None
  have "USER_HIT_LOG g user = None" "USER_PREDICTIONS g user = None" "USER_ANALYTICS g user = None"
    using None assms unfolding state_ok_def by (metis domIff)+
  then show ?thesis
    unfolding get_user_data_unseen[OF None]
    using None by (simp add: cache_of_def log_of_def predictions_of_def counters_of_def ensure_user_def)
next
  case (Some cache)
  from get_user_data_seen[OF assms Some] obtain hit_log preds an where
    "USER_HIT_LOG g user = Some hit_log" "USER_PREDICTIONS g user = Some preds"
    "USER_ANALYTICS g user = Some an"
    "get_user_data g user = Inr ((cache, hit_log, preds, an), g)" by (elim exE conjE)
  then show ?thesis
    using Some by (simp add: cache_of_def log_of_def predictions_of_def counters_of_def ensure_user_def)
qed

lemma float_le_Finite: "float_le (Finite x) (Finite y) \<longleftrightarrow> x \<le> y"
  by (auto simp: float_le_def)

lemma fold_max_props:
  "fold (\<lambda>y m. if tuple_less m y then y else m) xs x \<in> set (x # xs)
   \<and> (\<forall>y \<in> set (x # xs). \<not> tuple_less (fold (\<lambda>y m. if tuple_less m y then y else m) xs x) y)"
proof (induction xs arbitrary: x)
  case Nil
  then show ?case by (simp add: tuple_less_def)
next
  case (Cons a xs)
  let ?f = "\<lambda>y m. if tuple_less m y then y else m"
  let ?x' = "if tuple_less x a then a else x"
  have ih: "fold ?f xs ?x' \<in> set (?x' # xs)" "\<forall>y \<in> set (?x' # xs). \<not> tuple_less (fold ?f xs ?x') y"
    using Cons.IH[of ?x'] by blast+
  have trans: "\<And>p q r. \<not> tuple_less p q \<Longrightarrow> \<not> tuple_less q r \<Longrightarrow> \<not> tuple_less p r"
    unfolding tuple_less_def by (auto simp: not_less) 
  have x'x: "\<not> tuple_less ?x' x" "\<not> tuple_less ?x' a"
    unfolding tuple_less_def by (auto simp: not_less)
  have m: "\<not> tuple_less (fold ?f xs ?x') ?x'" using ih(2) by simp
  have "\<not> tuple_less (fold ?f xs ?x') x" "\<not> tuple_less (fold ?f xs ?x') a"
    using trans[OF m x'x(1)] trans[OF m x'x(2)] by blast+
  moreover have "fold ?f (a # xs) x = fold ?f xs ?x'" by simp
  ultimately show ?case using ih by (auto split: if_splits)
qed

lemma py_max_Some:
  assumes "py_max xs = Some m"
  shows "m \<in> set xs \<and> (\<forall>y \<in> set xs. \<not> tuple_less m y)"
proof (cases xs)
  case Nil then show ?thesis using assms by simp
next
  case (Cons x xs')
  then have "m = fold (\<lambda>y m. if tuple_less m y then y else m) xs' x" using assms by simp
  then show ?thesis using fold_max_props[of xs' x] Cons by simp
qed

lemma py_max_None: "py_max xs = None \<longleftrightarrow> xs = []"
  by (cases xs) auto

lemma get_close_matches_Nil:
  "get_close_matches word ps = [] \<longleftrightarrow> (\<forall>x \<in> set ps. ratio x word < 17 / 20)"
proof -
  let ?l = "map (\<lambda>x. (ratio x word, x)) (filter (\<lambda>x. ratio x word \<ge> 17 / 20) ps)"
  have "get_close_matches word ps = [] \<longleftrightarrow> py_max ?l = None"
    unfolding get_close_matches_def by (auto split: option.splits)
  also have "\<dots> \<longleftrightarrow> filter (\<lambda>x. ratio x word \<ge> 17 / 20) ps = []"
    by (simp add: py_max_None)
  also have "\<dots> \<longleftrightarrow> (\<forall>x \<in> set ps. ratio x word < 17 / 20)"
    by (auto simp: filter_empty_conv not_le)
  finally show ?thesis .
qed

lemma get_close_matches_Cons:
  assumes "get_close_matches word ps = k # rest"
  shows "rest = [] \<and> k \<in> set ps \<and> ratio k word \<ge> 17 / 20
    \<and> (\<forall>x \<in> set ps. ratio x word < ratio k word \<or> (ratio x word = ratio k word \<and> x \<le> k))"
proof -
  let ?l = "map (\<lambda>x. (ratio x word, x)) (filter (\<lambda>x. ratio x word \<ge> 17 / 20) ps)"
  from assms obtain score where m: "py_max ?l = Some (score, k)" and r: "rest = []"
    unfolding get_close_matches_def by (auto split: option.splits)
  from py_max_Some[OF m] have in_l: "(score, k) \<in> set ?l"
    and mx: "\<forall>y \<in> set ?l. \<not> tuple_less (score, k) y" by blast+
  from in_l have k: "k \<in> set ps" "ratio k word \<ge> 17 / 20" "score = ratio k word" by auto
  have "ratio x word < ratio k word \<or> (ratio x word = ratio k word \<and> x \<le> k)" if "x \<in> set ps" for x
  proof (cases "ratio x word \<ge> 17 / 20")
    case True
    then have "(ratio x word, x) \<in> set ?l" using that by auto
    with mx have "\<not> tuple_less (score, k) (ratio x word, x)" by blast
    then show ?thesis using k(3) unfolding tuple_less_def by (auto simp: not_less)
  next
    case False
    then show ?thesis using k(2) by auto
  qed
  then show ?thesis using r k by blast
qed

lemma cache_lookup_eq:
  "cache_lookup cache k =
     Inr (case map_of cache k of
            Some e \<Rightarrow> (Some e, False, None)
          | None \<Rightarrow>
              (case get_close_matches k (map fst cache) of
                 [] \<Rightarrow> (None, False, None)
               | fuzzy_key # _ \<Rightarrow> (map_of cache fuzzy_key, True, Some fuzzy_key)))"
proof (cases "map_of cache k")
  case (Some e) then show ?thesis by (simp add: cache_lookup_def)
next
  case None
  show ?thesis
  proof (cases "get_close_matches k (map fst cache)")
    case Nil then show ?thesis using None by (simp add: cache_lookup_def)
  next
    case (Cons fk rest)
    from get_close_matches_Cons[OF Cons] have "fk \<in> fst ` set cache" by auto
    then obtain e where "map_of cache fk = Some e"
      by (metis domD dom_map_of_conv_image_fst)
    then show ?thesis using None Cons by (simp add: cache_lookup_def)
  qed
qed

lemma cache_ok_update:
  assumes "cache_ok cache" "expiry e = CACHE_EXPIRY_SECONDS" "source e = ''backend'' \<or> source e = ''predicted''"
  shows "cache_ok (AList.update k e cache)"
proof -
  have d: "distinct (map fst (AList.update k e cache))"
    using assms(1) by (simp add: cache_ok_def distinct_update)
  have "set (AList.update k e cache) \<subseteq> insert (k, e) (set cache)"
    by (induction cache) auto
  then show ?thesis using assms d unfolding cache_ok_def by fastforce
qed

lemma prefetch_one_ok:
  assumes "cache_ok cache" "prefetch_one t now pred cache = Inr cache'"
  shows "cache_ok cache'"
  using assms
  by (auto simp: prefetch_one_def Let_def intro!: cache_ok_update
      split: sum.splits pyval.splits bool.splits if_splits)

lemma prefetch_predictions_ok:
  assumes "cache_ok cache"
  shows "cache_ok (snd (prefetch_predictions t now preds cache))"
  using assms
proof (induction preds arbitrary: cache)
  case Nil
  then show ?case by simp
next
  case (Cons pred preds)
  show ?case
  proof (cases "prefetch_one t now pred cache")
    case (Inl e)
    then show ?thesis using Cons.prems by simp
  next
    case (Inr cache')
    then show ?thesis using Cons.IH[OF prefetch_one_ok[OF Cons.prems Inr]] by simp
  qed
qed

lemma resolve_cases:
  "resolve cache an cache_entry fuzzy_used query norm_query now =
     (if (case cache_entry of Some e \<Rightarrow> is_fresh now e | None \<Rightarrow> False)
      then (result (the cache_entry),
            (if fuzzy_used then ''fuzzy_cache''
             else if source (the cache_entry) = ''backend'' then ''cache''
             else source (the cache_entry)),
            cache, count_hit an)
      else backend_fill cache an query norm_query now)"
  by (auto simp: resolve_def split: option.splits)

lemma resolve_ok:
  assumes "cache_ok cache" "resolve cache an cache_entry fuzzy_used query norm_query now = (res, src, cache', an')"
    and "\<forall>e. cache_entry = Some e \<longrightarrow> source e = ''backend'' \<or> source e = ''predicted''"
  shows "cache_ok cache' \<and> known_source src"
proof (cases "case cache_entry of Some e \<Rightarrow> is_fresh now e | None \<Rightarrow> False")
  case True
  then obtain e where e: "cache_entry = Some e" by (auto split: option.splits)
  with True assms show ?thesis
    by (auto simp: resolve_cases known_source_def split: if_splits)
next
  case False
  then have "backend_fill cache an query norm_query now = (res, src, cache', an')"
    using assms(2) by (simp add: resolve_cases)
  then show ?thesis using assms(1)
    by (auto simp: backend_fill_def known_source_def intro!: cache_ok_update)
qed

lemma length_record_hit: "length hit_log \<le> 10 \<Longrightarrow> length (record_hit hit_log h) \<le> 10"
  by (simp add: record_hit_def Let_def)

lemma set_record_hit: "set (record_hit hit_log h) \<subseteq> insert h (set hit_log)"
  by (cases hit_log) (auto simp: record_hit_def Let_def)

lemma map_of_cache_ok:
  assumes "cache_ok cache" "map_of cache k = Some e"
  shows "expiry e = CACHE_EXPIRY_SECONDS \<and> (source e = ''backend'' \<or> source e = ''predicted'')"
  using assms map_of_SomeD[OF assms(2)] unfolding cache_ok_def by fastforce

lemma cache_lookup_entry:
  assumes "cache_ok cache" "cache_lookup cache k = Inr (Some e, fuzzy_used, fuzzy_key)"
  shows "expiry e = CACHE_EXPIRY_SECONDS \<and> (source e = ''backend'' \<or> source e = ''predicted'')"
proof -
  from assms(2) obtain k' where "map_of cache k' = Some e"
    unfolding cache_lookup_eq by (auto split: option.splits list.splits)
  from map_of_cache_ok[OF assms(1) this] show ?thesis .
qed

text \<open>What \<open>search\<close> returns, in terms of the user's data after the lazy creation.\<close>

lemma search_eq:
  assumes "get_user_data g user = Inr ((cache, hit_log, preds, an), g1)"
    and "cache_lookup cache (normalize_query query) = Inr (cache_entry, fuzzy_used, fuzzy_key)"
    and "resolve cache an cache_entry fuzzy_used query (normalize_query query) now = (res, src, cache', an')"
  shows "search g query user now =
     Inr (\<lparr>r_result = res, r_source = src\<rparr>,
          (user, map hit_query (drop (length (record_hit hit_log \<lparr>hit_query = query, hit_source = src, hit_time = now\<rparr>) - N_HISTORY)
                   (record_hit hit_log \<lparr>hit_query = query, hit_source = src, hit_time = now\<rparr>))),
          g1\<lparr>USER_CACHE := (USER_CACHE g1)(user \<mapsto> cache'),
             USER_HIT_LOG := (USER_HIT_LOG g1)(user \<mapsto>
                record_hit hit_log \<lparr>hit_query = query, hit_source = src, hit_time = now\<rparr>),
             USER_ANALYTICS := (USER_ANALYTICS g1)(user \<mapsto> an')\<rparr>)"
  using assms by (simp add: search_def Let_def)

lemma state_ok_user_update:
  assumes "state_ok g1" "USER_CACHE g1 user \<noteq> None" "cache_ok cache'" "length hit_log' \<le> 10"
    "\<forall>h \<in> set hit_log'. known_source (hit_source h)"
  shows "state_ok (g1\<lparr>USER_CACHE := (USER_CACHE g1)(user \<mapsto> cache'),
             USER_HIT_LOG := (USER_HIT_LOG g1)(user \<mapsto> hit_log'),
             USER_ANALYTICS := (USER_ANALYTICS g1)(user \<mapsto> an')\<rparr>)"
  using assms unfolding state_ok_def by (auto split: if_splits)

lemma state_ok_cache_update:
  assumes "state_ok g1" "USER_CACHE g1 user \<noteq> None" "cache_ok cache'"
  shows "state_ok (g1\<lparr>USER_CACHE := (USER_CACHE g1)(user \<mapsto> cache')\<rparr>)"
  using assms unfolding state_ok_def by (auto split: if_splits)

lemma state_ok_predictions_update:
  assumes "state_ok g1" "USER_CACHE g1 user \<noteq> None"
  shows "state_ok (g1\<lparr>USER_PREDICTIONS := (USER_PREDICTIONS g1)(user \<mapsto> preds)\<rparr>)"
  using assms unfolding state_ok_def by (auto split: if_splits)

lemma cache_lookup_Inr:
  "\<exists>cache_entry fuzzy_used fuzzy_key. cache_lookup cache k = Inr (cache_entry, fuzzy_used, fuzzy_key)"
proof -
  have "\<exists>x. cache_lookup cache k = Inr x" by (rule exI, rule cache_lookup_eq)
  then obtain x where x: "cache_lookup cache k = Inr x" ..
  obtain a b c where "x = (a, b, c)" by (cases x)
  with x show ?thesis by simp
qed

lemma get_user_data_Inr:
  assumes "state_ok g"
  shows "\<exists>cache hit_log preds an g1. get_user_data g user = Inr ((cache, hit_log, preds, an), g1)"
proof (cases "USER_CACHE g user")
  case None
  show ?thesis unfolding get_user_data_unseen[OF None] by simp
next
  case (Some cache)
  from get_user_data_seen[OF assms Some] show ?thesis by metis
qed

lemma search_ok:
  assumes "state_ok g"
  shows "\<exists>resp history g'. search g query user now = Inr (resp, (user, history), g')
     \<and> state_ok g' \<and> dom (USER_CACHE g') = insert user (dom (USER_CACHE g))"
proof -
  obtain cache hit_log preds an g1 where
    gud: "get_user_data g user = Inr ((cache, hit_log, preds, an), g1)"
    using get_user_data_Inr[OF assms, of user] by (elim exE)
  note r = get_user_data_result[OF assms gud]
  have r1: "state_ok g1" and r2: "USER_CACHE g1 user = Some cache" and r3: "cache_ok cache"
    and r4: "length hit_log \<le> 10" and r5: "\<forall>h \<in> set hit_log. known_source (hit_source h)"
    and r6: "dom (USER_CACHE g1) = insert user (dom (USER_CACHE g))"
    using r by simp_all
  obtain cache_entry fuzzy_used fuzzy_key where
    cl: "cache_lookup cache (normalize_query query) = Inr (cache_entry, fuzzy_used, fuzzy_key)"
    using cache_lookup_Inr[of cache "normalize_query query"] by blast
  obtain res src cache' an' where
    rs: "resolve cache an cache_entry fuzzy_used query (normalize_query query) now = (res, src, cache', an')"
    by (cases "resolve cache an cache_entry fuzzy_used query (normalize_query query) now")
  have src_ok: "\<forall>e. cache_entry = Some e \<longrightarrow> source e = ''backend'' \<or> source e = ''predicted''"
  proof (intro allI impI)
    fix e assume "cache_entry = Some e"
    then have "cache_lookup cache (normalize_query query) = Inr (Some e, fuzzy_used, fuzzy_key)"
      using cl by simp
    from cache_lookup_entry[OF r3 this]
    show "source e = ''backend'' \<or> source e = ''predicted''" by (rule conjunct2)
  qed
  have c': "cache_ok cache'" "known_source src"
    using resolve_ok[OF r3 rs src_ok] by simp_all
  let ?h = "\<lparr>hit_query = query, hit_source = src, hit_time = now\<rparr>"
  have l: "length (record_hit hit_log ?h) \<le> 10" by (rule length_record_hit[OF r4])
  have k: "\<forall>h \<in> set (record_hit hit_log ?h). known_source (hit_source h)"
  proof
    fix h assume "h \<in> set (record_hit hit_log ?h)"
    then have "h = ?h \<or> h \<in> set hit_log" using set_record_hit[of hit_log ?h] by blast
    then show "known_source (hit_source h)" using r5 c'(2) by auto
  qed
  have u: "USER_CACHE g1 user \<noteq> None" using r2 by simp
  have ok: "state_ok (g1\<lparr>USER_CACHE := (USER_CACHE g1)(user \<mapsto> cache'),
             USER_HIT_LOG := (USER_HIT_LOG g1)(user \<mapsto> record_hit hit_log ?h),
             USER_ANALYTICS := (USER_ANALYTICS g1)(user \<mapsto> an')\<rparr>)"
    by (rule state_ok_user_update[OF r1 u c'(1) l k])
  have d: "dom (USER_CACHE (g1\<lparr>USER_CACHE := (USER_CACHE g1)(user \<mapsto> cache'),
             USER_HIT_LOG := (USER_HIT_LOG g1)(user \<mapsto> record_hit hit_log ?h),
             USER_ANALYTICS := (USER_ANALYTICS g1)(user \<mapsto> an')\<rparr>)) = insert user (dom (USER_CACHE g))"
    using r6 by simp
  show ?thesis
    by (intro exI conjI) (rule search_eq[OF gud cl rs], rule ok, rule d)
qed

lemma dashboard_ok:
  assumes "state_ok g"
  shows "\<exists>view g'. dashboard g user now = Inr (view, g') \<and> state_ok g'
     \<and> dom (USER_CACHE g') = insert user (dom (USER_CACHE g))"
proof -
  obtain cache hit_log preds an g1 where
    gud: "get_user_data g user = Inr ((cache, hit_log, preds, an), g1)"
    using get_user_data_Inr[OF assms, of user] by (elim exE)
  have r1: "state_ok g1" and r6: "dom (USER_CACHE g1) = insert user (dom (USER_CACHE g))"
    using get_user_data_result[OF assms gud] by simp_all
  show ?thesis using gud r1 r6 by (simp add: dashboard_def)
qed

lemma get_predictions_ok:
  assumes "state_ok g"
  shows "\<exists>p g'. get_predictions g user = Inr (p, g') \<and> state_ok g'
     \<and> dom (USER_CACHE g') = insert user (dom (USER_CACHE g))"
proof -
  obtain cache hit_log preds an g1 where
    gud: "get_user_data g user = Inr ((cache, hit_log, preds, an), g1)"
    using get_user_data_Inr[OF assms, of user] by (elim exE)
  have r1: "state_ok g1" and r6: "dom (USER_CACHE g1) = insert user (dom (USER_CACHE g))"
    using get_user_data_result[OF assms gud] by simp_all
  show ?thesis using gud r1 r6 by (simp add: get_predictions_def)
qed

lemma export_dashboard_ok:
  assumes "state_ok g"
  shows "\<exists>out g'. export_dashboard g fmt user = Inr (out, g') \<and> state_ok g'
     \<and> dom (USER_CACHE g') = insert user (dom (USER_CACHE g))"
proof -
  obtain cache hit_log preds an g1 where
    gud: "get_user_data g user = Inr ((cache, hit_log, preds, an), g1)"
    using get_user_data_Inr[OF assms, of user] by (elim exE)
  have r1: "state_ok g1" and r6: "dom (USER_CACHE g1) = insert user (dom (USER_CACHE g))"
    using get_user_data_result[OF assms gud] by simp_all
  show ?thesis using gud r1 r6 by (simp add: export_dashboard_def)
qed

lemma refresh_ok:
  assumes "state_ok g"
  shows "\<exists>res g'. refresh g query user now = Inr (res, g') \<and> state_ok g'
     \<and> dom (USER_CACHE g') = insert user (dom (USER_CACHE g))"
proof -
  obtain cache hit_log preds an g1 where
    gud: "get_user_data g user = Inr ((cache, hit_log, preds, an), g1)"
    using get_user_data_Inr[OF assms, of user] by (elim exE)
  have r1: "state_ok g1" and r2: "USER_CACHE g1 user = Some cache" and r3: "cache_ok cache"
    and r6: "dom (USER_CACHE g1) = insert user (dom (USER_CACHE g))"
    using get_user_data_result[OF assms gud] by simp_all
  let ?e = "\<lparr>result = ''Backend result for '' @ query @ '' (refreshed)'', timestamp = now,
      expiry = CACHE_EXPIRY_SECONDS, source = ''backend'', LLM_Confidence = None\<rparr>"
  have "cache_ok (AList.update (normalize_query query) ?e cache)"
    by (rule cache_ok_update[OF r3]) simp_all
  then have "state_ok (g1\<lparr>USER_CACHE := (USER_CACHE g1)(user \<mapsto> AList.update (normalize_query query) ?e cache)\<rparr>)"
    using r1 r2 by (intro state_ok_cache_update) simp_all
  then show ?thesis using r6 gud by (simp add: refresh_def Let_def)
qed

lemma set_confidence_ok:
  assumes "state_ok g" "set_confidence g data = Inr (resp, g')"
  shows "state_ok g' \<and> USER_CACHE g' = USER_CACHE g"
proof -
  have "g' = g \<or> (\<exists>conf. g' = g\<lparr>PREFETCH_CONFIDENCE_THRESHOLD := conf\<rparr>
      \<and> float_le (Finite 0) conf \<and> float_le conf (Finite 1))"
    using assms(2) by (auto simp: set_confidence_def split: sum.splits pyval.splits if_splits)
  then show ?thesis
  proof
    assume "g' = g" then show ?thesis using assms(1) by simp
  next
    assume "\<exists>conf. g' = g\<lparr>PREFETCH_CONFIDENCE_THRESHOLD := conf\<rparr>
      \<and> float_le (Finite 0) conf \<and> float_le conf (Finite 1)"
    then obtain conf where c: "g' = g\<lparr>PREFETCH_CONFIDENCE_THRESHOLD := conf\<rparr>"
      "float_le (Finite 0) conf" "float_le conf (Finite 1)" by blast
    then obtain r where "conf = Finite r" "0 \<le> r" "r \<le> 1"
      by (cases conf) (auto simp: float_le_def)
    then show ?thesis using assms(1) c(1) unfolding state_ok_def by simp
  qed
qed

lemma predict_and_prefetch_ok:
  assumes "state_ok g" "USER_CACHE g user \<noteq> None"
  shows "state_ok (snd (predict_and_prefetch loads g user history reply now))
     \<and> dom (USER_CACHE (snd (predict_and_prefetch loads g user history reply now))) = dom (USER_CACHE g)"
proof -
  let ?preds = "get_predictions_from_llm loads history reply"
  let ?g1 = "g\<lparr>USER_PREDICTIONS := (USER_PREDICTIONS g)(user \<mapsto> ?preds)\<rparr>"
  obtain cache where c: "USER_CACHE g user = Some cache" using assms(2) by auto
  have ok1: "state_ok ?g1" by (rule state_ok_predictions_update[OF assms])
  have cok: "cache_ok cache" using assms(1) c unfolding state_ok_def by blast
  obtain err cache' where p: "prefetch_predictions (PREFETCH_CONFIDENCE_THRESHOLD g) now ?preds cache = (err, cache')"
    by (metis surj_pair)
  have "cache_ok cache'" using prefetch_predictions_ok[OF cok, of "PREFETCH_CONFIDENCE_THRESHOLD g" now ?preds] p by simp
  then have "state_ok (?g1\<lparr>USER_CACHE := (USER_CACHE ?g1)(user \<mapsto> cache')\<rparr>)"
    using ok1 c by (intro state_ok_cache_update) auto
  moreover have "snd (predict_and_prefetch loads g user history reply now) = ?g1\<lparr>USER_CACHE := (USER_CACHE ?g1)(user \<mapsto> cache')\<rparr>"
    using c p by (simp add: predict_and_prefetch_def Let_def)
  ultimately show ?thesis using c by auto
qed


lemma threads_known:
  assumes "\<forall>(u, h) \<in> set ts. u \<in> dom (USER_CACHE g)"
    and "dom (USER_CACHE g) \<subseteq> dom (USER_CACHE g')" "set ts' \<subseteq> set ts"
  shows "\<forall>(u, h) \<in> set ts'. u \<in> dom (USER_CACHE g')"
  using assms by blast

lemma system_ok_step:
  assumes "system_ok s"
  shows "system_ok (step loads s ev)"
proof -
  have ok: "state_ok (mem s)" and th: "\<forall>(u, h) \<in> set (threads s). u \<in> dom (USER_CACHE (mem s))"
    using assms unfolding system_ok_def by blast+
  have keep: "system_ok (s\<lparr>mem := g'\<rparr>)"
    if "state_ok g'" "dom (USER_CACHE g') = insert user (dom (USER_CACHE (mem s)))" for g' user
  proof -
    have "\<forall>(u, h) \<in> set (threads s). u \<in> dom (USER_CACHE g')"
      by (rule threads_known[OF th]) (use that in auto)
    then show ?thesis using that(1) by (simp add: system_ok_def)
  qed
  show ?thesis
  proof (cases ev)
    case (Search query user now)
    from search_ok[OF ok, of query user now] obtain resp history g' where
      g': "search (mem s) query user now = Inr (resp, (user, history), g')" "state_ok g'"
      "dom (USER_CACHE g') = insert user (dom (USER_CACHE (mem s)))" by blast
    have "\<forall>(u, h) \<in> set (threads s). u \<in> dom (USER_CACHE g')"
      by (rule threads_known[OF th]) (use g' in auto)
    moreover have "user \<in> dom (USER_CACHE g')" using g'(3) by simp
    ultimately have "\<forall>(u, h) \<in> set (threads s @ [(user, history)]). u \<in> dom (USER_CACHE g')"
      by simp
    then show ?thesis using g'(1,2) Search by (simp add: system_ok_def)
  next
    case (Dashboard user now)
    from dashboard_ok[OF ok, of user now] obtain view g' where
      g': "dashboard (mem s) user now = Inr (view, g')" "state_ok g'"
      "dom (USER_CACHE g') = insert user (dom (USER_CACHE (mem s)))" by blast
    show ?thesis using keep[OF g'(2,3)] g'(1) Dashboard by simp
  next
    case (GetPredictions user)
    from get_predictions_ok[OF ok, of user] obtain p g' where
      g': "get_predictions (mem s) user = Inr (p, g')" "state_ok g'"
      "dom (USER_CACHE g') = insert user (dom (USER_CACHE (mem s)))" by blast
    show ?thesis using keep[OF g'(2,3)] g'(1) GetPredictions by simp
  next
    case (SetConfidence data)
    show ?thesis
    proof (cases "set_confidence (mem s) data")
      case (Inl e) then show ?thesis using assms SetConfidence by simp
    next
      case (Inr p)
      obtain resp g' where p: "p = (resp, g')" by (cases p)
      from set_confidence_ok[OF ok, of data resp g'] Inr p
      have "state_ok g'" "USER_CACHE g' = USER_CACHE (mem s)" by auto
      then have "system_ok (s\<lparr>mem := g'\<rparr>)" using th by (simp add: system_ok_def)
      then show ?thesis using Inr p SetConfidence by simp
    qed
  next
    case (Refresh query user now)
    from refresh_ok[OF ok, of query user now] obtain res g' where
      g': "refresh (mem s) query user now = Inr (res, g')" "state_ok g'"
      "dom (USER_CACHE g') = insert user (dom (USER_CACHE (mem s)))" by blast
    show ?thesis using keep[OF g'(2,3)] g'(1) Refresh by simp
  next
    case (Export fmt user)
    from export_dashboard_ok[OF ok, of fmt user] obtain out g' where
      g': "export_dashboard (mem s) fmt user = Inr (out, g')" "state_ok g'"
      "dom (USER_CACHE g') = insert user (dom (USER_CACHE (mem s)))" by blast
    show ?thesis using keep[OF g'(2,3)] g'(1) Export by simp
  next
    case (Background n reply now)
    show ?thesis
    proof (cases "n < length (threads s)")
      case False then show ?thesis using assms Background by simp
    next
      case True
      obtain user history where t: "threads s ! n = (user, history)" by (cases "threads s ! n")
      have "(user, history) \<in> set (threads s)" using True t by (metis nth_mem)
      then have u: "USER_CACHE (mem s) user \<noteq> None" using th by auto
      let ?g' = "snd (predict_and_prefetch loads (mem s) user history reply now)"
      have sub: "set (take n (threads s) @ drop (Suc n) (threads s)) \<subseteq> set (threads s)"
        using set_take_subset[of n "threads s"] set_drop_subset[of "Suc n" "threads s"] by auto
      from predict_and_prefetch_ok[OF ok u, of loads history reply now]
      have g': "state_ok ?g'" "dom (USER_CACHE ?g') = dom (USER_CACHE (mem s))" by blast+
      have "\<forall>(u, h) \<in> set (take n (threads s) @ drop (Suc n) (threads s)). u \<in> dom (USER_CACHE ?g')"
        by (rule threads_known[OF th _ sub]) (use g' in auto)
      then show ?thesis using g'(1) True t Background by (simp add: system_ok_def)
    qed
  qed
qed

lemma system_ok_foldl: "system_ok s \<Longrightarrow> system_ok (foldl (step loads) s evs)"
  by (induction evs arbitrary: s) (auto intro: system_ok_step)

lemma system_ok_run: "system_ok (run loads evs)"
  unfolding run_def
  by (rule system_ok_foldl) (simp add: system_ok_def initial_system_def state_ok_initial)

lemma search_view:
  assumes "state_ok g"
    and "cache_lookup (cache_of g user) (normalize_query query) = Inr (cache_entry, fuzzy_used, fuzzy_key)"
    and "resolve (cache_of g user) (counters_of g user) cache_entry fuzzy_used query
           (normalize_query query) now = (res, src, cache', an')"
  shows "\<exists>history g'. search g query user now = Inr (\<lparr>r_result = res, r_source = src\<rparr>, (user, history), g')
     \<and> cache_of g' user = cache'
     \<and> log_of g' user = record_hit (log_of g user) \<lparr>hit_query = query, hit_source = src, hit_time = now\<rparr>
     \<and> counters_of g' user = an'
     \<and> (\<forall>u. u \<noteq> user \<longrightarrow> cache_of g' u = cache_of g u \<and> log_of g' u = log_of g u
            \<and> counters_of g' u = counters_of g u)
     \<and> (\<forall>u. predictions_of g' u = predictions_of g u)
     \<and> PREFETCH_CONFIDENCE_THRESHOLD g' = PREFETCH_CONFIDENCE_THRESHOLD g"
proof -
  let ?h = "\<lparr>hit_query = query, hit_source = src, hit_time = now\<rparr>"
  let ?g1 = "ensure_user g user"
  let ?g' = "?g1\<lparr>USER_CACHE := (USER_CACHE ?g1)(user \<mapsto> cache'),
             USER_HIT_LOG := (USER_HIT_LOG ?g1)(user \<mapsto> record_hit (log_of g user) ?h),
             USER_ANALYTICS := (USER_ANALYTICS ?g1)(user \<mapsto> an')\<rparr>"
  note v = ensure_user_views[of g user] ensure_user_views_ok[OF assms(1), of user]
  have 1: "search g query user now = Inr (\<lparr>r_result = res, r_source = src\<rparr>,
      (user, map hit_query (drop (length (record_hit (log_of g user) ?h) - N_HISTORY)
                   (record_hit (log_of g user) ?h))), ?g')"
    by (rule search_eq[OF get_user_data_view[OF assms(1)] assms(2,3)])
  have 2: "cache_of ?g' user = cache'" by (simp add: cache_of_def)
  have 3: "log_of ?g' user = record_hit (log_of g user) ?h" by (simp add: log_of_def)
  have 4: "counters_of ?g' user = an'" by (simp add: counters_of_def)
  have 5: "\<forall>u. u \<noteq> user \<longrightarrow> cache_of ?g' u = cache_of g u \<and> log_of ?g' u = log_of g u
            \<and> counters_of ?g' u = counters_of g u"
  proof (intro allI impI)
    fix u assume "u \<noteq> user"
    then have "cache_of ?g' u = cache_of ?g1 u" "log_of ?g' u = log_of ?g1 u"
      "counters_of ?g' u = counters_of ?g1 u"
      by (simp_all add: cache_of_def log_of_def counters_of_def)
    then show "cache_of ?g' u = cache_of g u \<and> log_of ?g' u = log_of g u
            \<and> counters_of ?g' u = counters_of g u" by (simp add: v)
  qed
  have 6: "\<forall>u. predictions_of ?g' u = predictions_of g u"
  proof
    fix u
    have "predictions_of ?g' u = predictions_of ?g1 u" by (simp add: predictions_of_def)
    then show "predictions_of ?g' u = predictions_of g u" by (simp add: v)
  qed
  have 7: "PREFETCH_CONFIDENCE_THRESHOLD ?g' = PREFETCH_CONFIDENCE_THRESHOLD g" by (simp add: v)
  show ?thesis
    by (intro exI conjI) (rule 1, rule 2, rule 3, rule 4, rule 5, rule 6, rule 7)
qed

lemma cache_of_ok: "state_ok g \<Longrightarrow> cache_ok (cache_of g user)"
  unfolding cache_of_def state_ok_def by (auto simp: cache_ok_Nil split: option.splits)

lemma log_of_ok:
  "state_ok g \<Longrightarrow> length (log_of g user) \<le> 10 \<and> (\<forall>h \<in> set (log_of g user). known_source (hit_source h))"
  unfolding log_of_def state_ok_def by (auto split: option.splits)

lemma is_fresh_expiry:
  assumes "cache_ok cache" "map_of cache k = Some e"
  shows "is_fresh now e \<longleftrightarrow> now - timestamp e < expiry e"
  using map_of_cache_ok[OF assms] by (simp add: is_fresh_def)

lemma cache_list_live:
  assumes "cache_ok cache" "map_of cache k = Some e"
  shows "(k, source e, expiry e - (now - timestamp e)) \<in> set (cache_list cache now)
     \<longleftrightarrow> now - timestamp e < expiry e"
proof
  assume "(k, source e, expiry e - (now - timestamp e)) \<in> set (cache_list cache now)"
  then obtain e' where e': "(k, e') \<in> set cache" "expiry e' - (now - timestamp e') > 0"
    by (auto simp: cache_list_def)
  have "distinct (map fst cache)" using assms(1) by (simp add: cache_ok_def)
  then have "map_of cache k = Some e'" using e'(1) by simp
  then have "e' = e" using assms(2) by simp
  then show "now - timestamp e < expiry e" using e'(2) by simp
next
  assume "now - timestamp e < expiry e"
  moreover have "(k, e) \<in> set cache" by (rule map_of_SomeD[OF assms(2)])
  ultimately show "(k, source e, expiry e - (now - timestamp e)) \<in> set (cache_list cache now)"
    by (force simp: cache_list_def)
qed

lemma count_known:
  assumes "\<forall>h \<in> set l. known_source (hit_source h)"
  shows "miss_count l + hit_count l = length l"
  using assms
  by (induction l) (auto simp: miss_count_def hit_count_def known_source_def)

lemma not_float_lt: "x \<noteq> NaN \<Longrightarrow> \<not> float_lt x (Finite t) \<longleftrightarrow> float_le (Finite t) x"
  by (cases x) (auto simp: float_le_def)

lemma prefetch_one_candidate:
  assumes "map_of d ''query'' = Some (PyStr pq)"
    and "as_number (case map_of d ''confidence'' of None \<Rightarrow> PyFloat (Finite 1) | Some v \<Rightarrow> v) = Some x"
  shows "prefetch_one t now (PyDict d) cache =
     Inr (if float_lt x t then cache
          else if (case map_of cache (normalize_query pq) of Some e \<Rightarrow> is_fresh now e | None \<Rightarrow> False)
          then cache
          else AList.update (normalize_query pq)
                 \<lparr>result = ''Predicted backend result for '' @ pq, timestamp = now,
                  expiry = CACHE_EXPIRY_SECONDS, source = ''predicted'',
                  LLM_Confidence = Some (case map_of d ''confidence'' of
                                           None \<Rightarrow> PyFloat (Finite 1) | Some v \<Rightarrow> v)\<rparr> cache)"
proof -
  have g: "py_get (PyDict d) ''confidence'' (PyFloat (Finite 1)) =
      Inr (case map_of d ''confidence'' of None \<Rightarrow> PyFloat (Finite 1) | Some v \<Rightarrow> v)"
    by (simp split: option.splits)
  show ?thesis
    unfolding prefetch_one_def using assms
    by (simp only: subscript.simps g lt_float_def Let_def option.case sum.case pyval.case
        bool.case split: if_splits) simp
qed

lemma prefetch_one_gate:
  assumes "map_of d ''query'' = Some (PyStr pq)"
    and "as_number (case map_of d ''confidence'' of None \<Rightarrow> PyFloat (Finite 1) | Some v \<Rightarrow> v) = Some x"
    and "x \<noteq> NaN"
  shows "prefetch_one (Finite t) now (PyDict d) c =
     Inr (if float_le (Finite t) x
             \<and> \<not> (\<exists>e. map_of c (normalize_query pq) = Some e \<and> is_fresh now e)
          then AList.update (normalize_query pq)
                 \<lparr>result = ''Predicted backend result for '' @ pq, timestamp = now,
                  expiry = CACHE_EXPIRY_SECONDS, source = ''predicted'',
                  LLM_Confidence = Some (case map_of d ''confidence'' of
                                           None \<Rightarrow> PyFloat (Finite 1) | Some v \<Rightarrow> v)\<rparr> c
          else c)"
proof -
  let ?live = "\<exists>e. map_of c (normalize_query pq) = Some e \<and> is_fresh now e"
  have live: "(case map_of c (normalize_query pq) of Some e \<Rightarrow> is_fresh now e | None \<Rightarrow> False)
      \<longleftrightarrow> ?live"
    by (cases "map_of c (normalize_query pq)") simp_all
  note p = prefetch_one_candidate[OF assms(1,2), of "Finite t" now c]
  note lt = not_float_lt[OF assms(3), of t]
  show ?thesis
  proof (cases "float_le (Finite t) x \<and> \<not> ?live")
    case True
    have nlt: "\<not> float_lt x (Finite t)" using True lt by blast
    have nl: "\<not> (case map_of c (normalize_query pq) of Some e \<Rightarrow> is_fresh now e | None \<Rightarrow> False)"
      using True live by blast
    show ?thesis unfolding p if_P[OF True] by (simp only: nlt nl if_False)
  next
    case False
    then have "float_lt x (Finite t)
        \<or> (case map_of c (normalize_query pq) of Some e \<Rightarrow> is_fresh now e | None \<Rightarrow> False)"
      using lt live by blast
    then show ?thesis unfolding p if_not_P[OF False] by auto
  qed
qed

lemma prefetch_predictions_append:
  assumes "prefetch_predictions t now ps cache = (None, c1)"
  shows "prefetch_predictions t now (ps @ rest) cache = prefetch_predictions t now rest c1"
  using assms
proof (induction ps arbitrary: cache)
  case Nil
  then show ?case by simp
next
  case (Cons p ps)
  then show ?case by (cases "prefetch_one t now p cache") auto
qed

lemma re_search_array_no_bracket: "CHR ''['' \<notin> set content \<Longrightarrow> re_search_array content = None"
proof -
  assume "CHR ''['' \<notin> set content"
  then have h: "dropWhile (\<lambda>c. c \<noteq> CHR ''['') content = []" by (auto simp: dropWhile_eq_Nil_conv)
  show ?thesis unfolding re_search_array_def h by (simp only: list.case)
qed

lemma predict_and_prefetch_frame:
  "log_of (snd (predict_and_prefetch loads g user history reply now)) u = log_of g u"
  "counters_of (snd (predict_and_prefetch loads g user history reply now)) u = counters_of g u"
  "PREFETCH_CONFIDENCE_THRESHOLD (snd (predict_and_prefetch loads g user history reply now))
     = PREFETCH_CONFIDENCE_THRESHOLD g"
  "predictions_of (snd (predict_and_prefetch loads g user history reply now)) user
     = get_predictions_from_llm loads history reply"
  by (simp_all add: predict_and_prefetch_def Let_def log_of_def counters_of_def predictions_of_def
      split: option.splits prod.splits)

lemma predict_and_prefetch_cache:
  assumes "USER_CACHE g user \<noteq> None"
  shows "cache_of (snd (predict_and_prefetch loads g user history reply now)) user =
     snd (prefetch_predictions (PREFETCH_CONFIDENCE_THRESHOLD g) now
            (get_predictions_from_llm loads history reply) (cache_of g user))"
proof -
  obtain cache where c: "USER_CACHE g user = Some cache" using assms by auto
  obtain err cache' where p: "prefetch_predictions (PREFETCH_CONFIDENCE_THRESHOLD g) now
      (get_predictions_from_llm loads history reply) cache = (err, cache')"
    by (cases "prefetch_predictions (PREFETCH_CONFIDENCE_THRESHOLD g) now
      (get_predictions_from_llm loads history reply) cache")
  show ?thesis using c p by (simp add: predict_and_prefetch_def Let_def cache_of_def)
qed

lemma record_hit_drop:
  assumes "length l \<le> 10"
  shows "record_hit l h = drop (length (l @ [h]) - 10) (l @ [h])"
proof (cases "length l = 10")
  case True
  then have "l \<noteq> []" by auto
  then show ?thesis using True by (cases l) (simp_all add: record_hit_def Let_def)
next
  case False
  then have "length l < 10" using assms by simp
  then show ?thesis by (simp add: record_hit_def Let_def)
qed

lemma record_hit_cases:
  assumes "length l \<le> 10"
  shows "record_hit l h = (if length l < 10 then l @ [h] else tl l @ [h])"
proof (cases "length l < 10")
  case True
  then show ?thesis by (simp add: record_hit_def Let_def)
next
  case False
  then have "length l = 10" using assms by simp
  then show ?thesis by (cases l) (simp_all add: record_hit_def Let_def)
qed

lemma drop_last_append:
  "drop (length (drop (length xs - n) xs @ ys) - n) (drop (length xs - n) xs @ ys)
     = drop (length (xs @ ys) - n) (xs @ ys)"
proof (cases "length xs \<le> n")
  case True
  then show ?thesis by simp
next
  case False
  then have "length xs - n + length ys = length xs + length ys - n" by simp
  then show ?thesis using False by (simp add: drop_append add.commute)
qed

lemma search_log:
  assumes "state_ok g"
  shows "\<exists>resp thread g'. search g query user now = Inr (resp, thread, g')
     \<and> log_of g' user = record_hit (log_of g user)
          \<lparr>hit_query = query, hit_source = r_source resp, hit_time = now\<rparr>
     \<and> (\<forall>u. u \<noteq> user \<longrightarrow> log_of g' u = log_of g u)"
proof -
  let ?c = "cache_of g user" and ?k = "normalize_query query" and ?an = "counters_of g user"
  obtain cache_entry fuzzy_used fuzzy_key where
    cl: "cache_lookup ?c ?k = Inr (cache_entry, fuzzy_used, fuzzy_key)"
    using cache_lookup_Inr[of ?c ?k] by (elim exE)
  obtain res src cache' an' where
    rs: "resolve ?c ?an cache_entry fuzzy_used query ?k now = (res, src, cache', an')"
    by (cases "resolve ?c ?an cache_entry fuzzy_used query ?k now")
  from search_view[OF assms cl rs] obtain history g' where
    s: "search g query user now = Inr (\<lparr>r_result = res, r_source = src\<rparr>, (user, history), g')"
    and l: "log_of g' user = record_hit (log_of g user) \<lparr>hit_query = query, hit_source = src, hit_time = now\<rparr>"
    and o: "\<forall>u. u \<noteq> user \<longrightarrow> cache_of g' u = cache_of g u \<and> log_of g' u = log_of g u
            \<and> counters_of g' u = counters_of g u"
    by (elim exE conjE)
  have o': "\<forall>u. u \<noteq> user \<longrightarrow> log_of g' u = log_of g u" using o by simp
  show ?thesis
    apply (rule exI[of _ "\<lparr>r_result = res, r_source = src\<rparr>"], rule exI[of _ "(user, history)"],
        rule exI[of _ g'])
    using s l o' by simp
qed

lemma step_log:
  assumes "system_ok s"
  shows "log_of (mem (step loads s ev)) u =
     drop (length (log_of (mem s) u @ lookups_of loads u s [ev]) - 10)
       (log_of (mem s) u @ lookups_of loads u s [ev])"
proof -
  have ok: "state_ok (mem s)" using assms by (simp add: system_ok_def)
  have len: "length (log_of (mem s) u) \<le> 10" using log_of_ok[OF ok, of u] by simp
  have same: ?thesis if "log_of (mem (step loads s ev)) u = log_of (mem s) u"
    "lookups_of loads u s [ev] = []"
    using that len by simp
  note gv = get_user_data_view[OF ok]
  note ev = ensure_user_views_ok[OF ok]
  show ?thesis
  proof (cases ev)
    case (Search query user now)
    from search_log[OF ok, of query user now] obtain resp thread g' where
      s: "search (mem s) query user now = Inr (resp, thread, g')"
      and l: "log_of g' user = record_hit (log_of (mem s) user)
          \<lparr>hit_query = query, hit_source = r_source resp, hit_time = now\<rparr>"
      and o: "\<forall>u. u \<noteq> user \<longrightarrow> log_of g' u = log_of (mem s) u"
      by (elim exE conjE)
    have m: "mem (step loads s ev) = g'" using s Search by simp
    show ?thesis
    proof (cases "user = u")
      case True
      have "lookups_of loads u s [ev] = [\<lparr>hit_query = query, hit_source = r_source resp, hit_time = now\<rparr>]"
        using s Search True by simp
      then show ?thesis using m l True record_hit_drop[OF len] by simp
    next
      case False
      have "lookups_of loads u s [ev] = []" using Search False by simp
      moreover have "log_of (mem (step loads s ev)) u = log_of (mem s) u"
        using m o False by simp
      ultimately show ?thesis by (rule same[rotated])
    qed
  next
    case (Dashboard user now)
    show ?thesis by (rule same) (simp_all add: Dashboard dashboard_def gv ev)
  next
    case (GetPredictions user)
    show ?thesis by (rule same) (simp_all add: GetPredictions get_predictions_def gv ev)
  next
    case (SetConfidence data)
    have "log_of g' u = log_of (mem s) u" if "set_confidence (mem s) data = Inr (resp, g')" for resp g'
      using that
      by (auto simp: set_confidence_def log_of_def split: sum.splits pyval.splits if_splits)
    then show ?thesis
      by (intro same) (auto simp: SetConfidence split: sum.splits)
  next
    case (Refresh query user now)
    show ?thesis
      by (rule same) (simp_all add: Refresh refresh_def gv Let_def log_of_def ev[unfolded log_of_def])
  next
    case (Export fmt user)
    show ?thesis by (rule same) (simp_all add: Export export_dashboard_def gv ev)
  next
    case (Background n reply now)
    have l: "lookups_of loads u s [ev] = []" using Background by simp
    have "log_of (mem (step loads s ev)) u = log_of (mem s) u"
    proof (cases "n < length (threads s)")
      case True
      obtain user history where t: "threads s ! n = (user, history)" by (cases "threads s ! n")
      show ?thesis using True t Background by (simp add: predict_and_prefetch_frame)
    next
      case False
      then show ?thesis using Background by simp
    qed
    then show ?thesis using l by (rule same)
  qed
qed

lemma lookups_of_Cons:
  "lookups_of loads u s (ev # evs) = lookups_of loads u s [ev] @ lookups_of loads u (step loads s ev) evs"
  by simp

lemma foldl_log:
  assumes "system_ok s"
  shows "log_of (mem (foldl (step loads) s evs)) u =
     drop (length (log_of (mem s) u @ lookups_of loads u s evs) - 10)
       (log_of (mem s) u @ lookups_of loads u s evs)"
  using assms
proof (induction evs arbitrary: s)
  case Nil
  have "length (log_of (mem s) u) \<le> 10"
    using log_of_ok[of "mem s" u] Nil by (simp add: system_ok_def)
  then show ?case by simp
next
  case (Cons ev evs)
  let ?s' = "step loads s ev"
  let ?l = "log_of (mem s) u" and ?a = "lookups_of loads u s [ev]" and ?b = "lookups_of loads u ?s' evs"
  have ok': "system_ok ?s'" by (rule system_ok_step[OF Cons.prems])
  have "log_of (mem (foldl (step loads) s (ev # evs))) u
      = drop (length (log_of (mem ?s') u @ ?b) - 10) (log_of (mem ?s') u @ ?b)"
    using Cons.IH[OF ok'] by simp
  also have "\<dots> = drop (length (drop (length (?l @ ?a) - 10) (?l @ ?a) @ ?b) - 10)
      (drop (length (?l @ ?a) - 10) (?l @ ?a) @ ?b)"
    by (simp only: step_log[OF Cons.prems])
  also have "\<dots> = drop (length ((?l @ ?a) @ ?b) - 10) ((?l @ ?a) @ ?b)"
    by (rule drop_last_append)
  also have "\<dots> = drop (length (?l @ lookups_of loads u s (ev # evs)) - 10)
      (?l @ lookups_of loads u s (ev # evs))"
    by (simp only: lookups_of_Cons[of loads u s ev evs] append_assoc)
  finally show ?case .
qed

lemma lookups_of_requests:
  assumes "system_ok s"
  shows "map (\<lambda>h. (hit_query h, hit_time h)) (lookups_of loads u s evs) = lookup_requests u evs"
  using assms
proof (induction evs arbitrary: s)
  case Nil
  then show ?case by simp
next
  case (Cons ev evs)
  have ok: "state_ok (mem s)" using Cons.prems by (simp add: system_ok_def)
  note ih = Cons.IH[OF system_ok_step[OF Cons.prems, of loads ev]]
  show ?case
  proof (cases ev)
    case (Search query user now)
    from search_log[OF ok, of query user now] obtain resp thread g' where
      s: "search (mem s) query user now = Inr (resp, thread, g')" by (elim exE conjE)
    have "map (\<lambda>h. (hit_query h, hit_time h)) (lookups_of loads u s [ev])
        = (if user = u then [(query, now)] else [])"
      using s Search by auto
    then show ?thesis
      unfolding lookups_of_Cons[of loads u s ev evs] using ih Search by simp
  qed (use ih in simp_all)
qed

lemma same_users_ok: "state_ok g \<Longrightarrow> same_users g"
  by (simp add: state_ok_def same_users_def)

section \<open>Forced refresh\<close>

text \<open>
  C9. In every state, and for every user and query, \<open>refresh\<close> succeeds and returns the
  fresh result; afterwards the user's cache holds, at the normalized key, an entry with
  that result, source \<open>backend\<close> and the refresh time as timestamp, whatever was there
  before (nothing, an entry of either source, live or expired); no test of the TTL and
  no fuzzy matching take part. The other keys keep their entries.
\<close>

theorem refresh_overwrites:
  assumes "state_ok g"
  shows "\<exists>g'.
     refresh g query user now = Inr (''Backend result for '' @ query @ '' (refreshed)'', g')
     \<and> map_of (cache_of g' user) (normalize_query query) =
          Some \<lparr>result = ''Backend result for '' @ query @ '' (refreshed)'',
                timestamp = now, expiry = CACHE_EXPIRY_SECONDS, source = ''backend'',
                LLM_Confidence = None\<rparr>
     \<and> (\<forall>k. k \<noteq> normalize_query query \<longrightarrow>
            map_of (cache_of g' user) k = map_of (cache_of g user) k)"
proof -
  let ?e = "\<lparr>result = ''Backend result for '' @ query @ '' (refreshed)'', timestamp = now,
      expiry = CACHE_EXPIRY_SECONDS, source = ''backend'', LLM_Confidence = None\<rparr>"
  let ?c = "AList.update (normalize_query query) ?e (cache_of g user)"
  let ?g1 = "ensure_user g user"
  let ?g' = "?g1\<lparr>USER_CACHE := (USER_CACHE ?g1)(user \<mapsto> ?c)\<rparr>"
  have 1: "refresh g query user now = Inr (''Backend result for '' @ query @ '' (refreshed)'', ?g')"
    by (simp add: refresh_def Let_def get_user_data_view[OF assms])
  have c: "cache_of ?g' user = ?c" by (simp add: cache_of_def)
  have 2: "map_of (cache_of ?g' user) (normalize_query query) = Some ?e"
    unfolding c by (simp add: update_conv')
  have 3: "\<forall>k. k \<noteq> normalize_query query \<longrightarrow>
      map_of (cache_of ?g' user) k = map_of (cache_of g user) k"
    unfolding c by (simp add: update_conv')
  show ?thesis by (intro exI conjI) (rule 1, rule 2, rule 3)
qed

theorem refresh_overwrites_witness:
  "state_ok (mem one_lookup)
   \<and> map_of (cache_of (mem one_lookup) ''guest'') ''weather in delhi'' =
       Some \<lparr>result = ''Backend result for Weather in Delhi'', timestamp = 0, expiry = 300,
             source = ''backend'', LLM_Confidence = None\<rparr>
   \<and> (\<exists>g'.
     refresh (mem one_lookup) '' WEATHER in Delhi'' ''guest'' 7 =
       Inr (''Backend result for '' @ '' WEATHER in Delhi'' @ '' (refreshed)'', g')
     \<and> map_of (cache_of g' ''guest'') (normalize_query '' WEATHER in Delhi'') =
          Some \<lparr>result = ''Backend result for '' @ '' WEATHER in Delhi'' @ '' (refreshed)'',
                timestamp = 7, expiry = CACHE_EXPIRY_SECONDS, source = ''backend'',
                LLM_Confidence = None\<rparr>
     \<and> (\<forall>k. k \<noteq> normalize_query '' WEATHER in Delhi'' \<longrightarrow>
            map_of (cache_of g' ''guest'') k = map_of (cache_of (mem one_lookup) ''guest'') k))"
proof -
  have ok: "state_ok (mem one_lookup)"
    using system_ok_run[of loads_fails "[Search ''Weather in Delhi'' ''guest'' 0]"]
    by (simp add: system_ok_def one_lookup_def)
  have before: "map_of (cache_of (mem one_lookup) ''guest'') ''weather in delhi'' =
       Some \<lparr>result = ''Backend result for Weather in Delhi'', timestamp = 0, expiry = 300,
             source = ''backend'', LLM_Confidence = None\<rparr>"
    by code_simp
  show ?thesis
    using ok before refresh_overwrites[OF ok, of "'' WEATHER in Delhi''" "''guest''" 7]
    by (intro conjI)
qed

section \<open>Export\<close>

text \<open>
  C8. \<open>export_dashboard\<close> with format \<open>csv\<close> succeeds and hands to the CSV writer the
  header row followed by one row for every entry of the user's cache, in the order of
  the cache, made of the key, the source, the timestamp and the expiry. No clock is
  read and no entry is left out: an entry whose time has run out is exported like any
  other.
\<close>

theorem export_csv_unfiltered:
  assumes "state_ok g"
  shows "\<exists>rows. export_dashboard g ''csv'' user = Inr (ExportCsv rows, ensure_user g user)
     \<and> hd rows = [CellStr ''query'', CellStr ''source'', CellStr ''timestamp'', CellStr ''expiry'']
     \<and> tl rows = map (\<lambda>(q, e). [CellStr q, CellStr (source e), CellInt (timestamp e),
                                 CellInt (expiry e)]) (cache_of g user)
     \<and> length rows = Suc (length (cache_of g user))
     \<and> (\<forall>(q, e) \<in> set (cache_of g user).
           [CellStr q, CellStr (source e), CellInt (timestamp e), CellInt (expiry e)]
             \<in> set (tl rows))"
proof -
  have 1: "export_dashboard g ''csv'' user =
      Inr (ExportCsv (csv_rows (cache_of g user)), ensure_user g user)"
    by (simp add: export_dashboard_def get_user_data_view[OF assms])
  show ?thesis
    unfolding 1 by (rule exI[of _ "csv_rows (cache_of g user)"]) (auto simp: csv_rows_def)
qed

text \<open>
  The entry written at time 0 is in the export, while the dashboard of time 1000 no
  longer lists it.
\<close>

theorem export_csv_unfiltered_witness:
  "state_ok (mem one_lookup)
   \<and> map_sum id fst (export_dashboard (mem one_lookup) ''csv'' ''guest'') =
       Inr (ExportCsv
         [[CellStr ''query'', CellStr ''source'', CellStr ''timestamp'', CellStr ''expiry''],
          [CellStr ''weather in delhi'', CellStr ''backend'', CellInt 0, CellInt 300]])
   \<and> cache_list (cache_of (mem one_lookup) ''guest'') 1000 = []
   \<and> (\<exists>rows. export_dashboard (mem one_lookup) ''csv'' ''guest'' =
         Inr (ExportCsv rows, ensure_user (mem one_lookup) ''guest'')
     \<and> hd rows = [CellStr ''query'', CellStr ''source'', CellStr ''timestamp'', CellStr ''expiry'']
     \<and> tl rows = map (\<lambda>(q, e). [CellStr q, CellStr (source e), CellInt (timestamp e),
                                 CellInt (expiry e)]) (cache_of (mem one_lookup) ''guest'')
     \<and> length rows = Suc (length (cache_of (mem one_lookup) ''guest''))
     \<and> (\<forall>(q, e) \<in> set (cache_of (mem one_lookup) ''guest'').
           [CellStr q, CellStr (source e), CellInt (timestamp e), CellInt (expiry e)]
             \<in> set (tl rows)))"
proof -
  have ok: "state_ok (mem one_lookup)"
    using system_ok_run[of loads_fails "[Search ''Weather in Delhi'' ''guest'' 0]"]
    by (simp add: system_ok_def one_lookup_def)
  have rows: "map_sum id fst (export_dashboard (mem one_lookup) ''csv'' ''guest'') =
       Inr (ExportCsv
         [[CellStr ''query'', CellStr ''source'', CellStr ''timestamp'', CellStr ''expiry''],
          [CellStr ''weather in delhi'', CellStr ''backend'', CellInt 0, CellInt 300]])"
    by code_simp
  have gone: "cache_list (cache_of (mem one_lookup) ''guest'') 1000 = []"
    by code_simp
  show ?thesis
    using ok rows gone export_csv_unfiltered[OF ok, of "''guest''"]
    by (intro conjI)
qed

section \<open>The confidence threshold\<close>

text \<open>
  C7. For a request body that is a JSON object, \<open>set_confidence\<close> looks at the value
  under \<open>confidence\<close>. If it is a float between 0 and 1, bounds included, the answer is
  a success and the threshold becomes that value, nothing else of the state changes.
  In every other case (no such key, a value that is not a float, an integer included,
  a float outside the interval, infinite or not a number) the answer is the explicit
  rejection and the state is as before.
\<close>

theorem set_confidence_validates:
  "(\<forall>r. map_of d ''confidence'' = Some (PyFloat (Finite r)) \<and> 0 \<le> r \<and> r \<le> 1 \<longrightarrow>
      set_confidence g (PyDict d) =
        Inr (Success (Finite r), g\<lparr>PREFETCH_CONFIDENCE_THRESHOLD := Finite r\<rparr>))
   \<and> ((\<nexists>r. map_of d ''confidence'' = Some (PyFloat (Finite r)) \<and> 0 \<le> r \<and> r \<le> 1) \<longrightarrow>
      set_confidence g (PyDict d) = Inr (Invalid_confidence_value, g))"
proof (intro conjI allI impI)
  fix r assume "map_of d ''confidence'' = Some (PyFloat (Finite r)) \<and> 0 \<le> r \<and> r \<le> 1"
  then show "set_confidence g (PyDict d) =
        Inr (Success (Finite r), g\<lparr>PREFETCH_CONFIDENCE_THRESHOLD := Finite r\<rparr>)"
    by (simp add: set_confidence_def float_le_Finite)
next
  assume n: "\<nexists>r. map_of d ''confidence'' = Some (PyFloat (Finite r)) \<and> 0 \<le> r \<and> r \<le> 1"
  show "set_confidence g (PyDict d) = Inr (Invalid_confidence_value, g)"
  proof (cases "map_of d ''confidence''")
    case None
    then show ?thesis by (simp add: set_confidence_def)
  next
    case (Some v)
    show ?thesis
    proof (cases v)
      case (PyFloat f)
      show ?thesis
      proof (cases f)
        case (Finite r)
        with n Some PyFloat have "\<not> (0 \<le> r \<and> r \<le> 1)" by simp
        then show ?thesis using Some PyFloat Finite
          by (auto simp: set_confidence_def float_le_Finite)
      qed (use Some PyFloat in \<open>simp_all add: set_confidence_def float_le_def\<close>)
    qed (use Some in \<open>simp_all add: set_confidence_def\<close>)
  qed
qed

text \<open>
  The float 0.4 is accepted; the integer 1, the float 1.5 and a body without the key are
  rejected.
\<close>

theorem set_confidence_validates_witness:
  "set_confidence initial_state (PyDict [(''confidence'', PyFloat (Finite (2 / 5)))]) =
     Inr (Success (Finite (2 / 5)),
          initial_state\<lparr>PREFETCH_CONFIDENCE_THRESHOLD := Finite (2 / 5)\<rparr>)
   \<and> set_confidence initial_state (PyDict [(''confidence'', PyInt 1)]) =
       Inr (Invalid_confidence_value, initial_state)
   \<and> set_confidence initial_state (PyDict [(''confidence'', PyFloat (Finite (3 / 2)))]) =
       Inr (Invalid_confidence_value, initial_state)
   \<and> set_confidence initial_state (PyDict []) = Inr (Invalid_confidence_value, initial_state)"
  using set_confidence_validates[of "[(''confidence'', PyFloat (Finite (2 / 5)))]" initial_state]
    set_confidence_validates[of "[(''confidence'', PyInt 1)]" initial_state]
    set_confidence_validates[of "[(''confidence'', PyFloat (Finite (3 / 2)))]" initial_state]
    set_confidence_validates[of "[]" initial_state]
  by simp

section \<open>Time to live\<close>

text \<open>
  C1. Every entry of a reachable cache carries the expiry of 300 seconds, so the test of
  \<open>search\<close> and of the prefetch (against the constant) and the test of the dashboard
  (against the entry's own \<open>expiry\<close>) agree: the entry is live exactly when
  \<open>now - timestamp < expiry\<close>. A \<open>search\<close> whose normalized key is in the cache returns
  the cached result as a hit and leaves the cache alone while that holds, in particular
  at \<open>timestamp + expiry - 1\<close>; from \<open>timestamp + expiry\<close> on it is a miss: the result
  comes from the backend, the source is \<open>backend\<close> and the entry is replaced.
\<close>

theorem ttl_boundary:
  assumes "state_ok g" and "map_of (cache_of g user) (normalize_query query) = Some e"
  shows "(is_fresh now e \<longleftrightarrow> now - timestamp e < expiry e)
    \<and> ((normalize_query query, source e, expiry e - (now - timestamp e))
          \<in> set (cache_list (cache_of g user) now) \<longleftrightarrow> now - timestamp e < expiry e)
    \<and> (now - timestamp e < expiry e \<longrightarrow>
         (\<exists>thread g'. search g query user now =
             Inr (\<lparr>r_result = result e,
                   r_source = (if source e = ''backend'' then ''cache'' else ''predicted'')\<rparr>,
                  thread, g')
           \<and> cache_of g' user = cache_of g user))
    \<and> (expiry e \<le> now - timestamp e \<longrightarrow>
         (\<exists>thread g'. search g query user now =
             Inr (\<lparr>r_result = ''Backend result for '' @ query, r_source = ''backend''\<rparr>, thread, g')
           \<and> map_of (cache_of g' user) (normalize_query query) =
               Some \<lparr>result = ''Backend result for '' @ query, timestamp = now,
                     expiry = CACHE_EXPIRY_SECONDS, source = ''backend'',
                     LLM_Confidence = None\<rparr>))"
proof -
  let ?c = "cache_of g user" and ?k = "normalize_query query" and ?an = "counters_of g user"
  have cok: "cache_ok ?c" by (rule cache_of_ok[OF assms(1)])
  note fr = is_fresh_expiry[OF cok assms(2), of now]
  have src: "source e = ''backend'' \<or> source e = ''predicted''"
    using map_of_cache_ok[OF cok assms(2)] by simp
  have cl: "cache_lookup ?c ?k = Inr (Some e, False, None)"
    using assms(2) by (simp add: cache_lookup_def)
  have hit: "\<exists>thread g'. search g query user now =
             Inr (\<lparr>r_result = result e,
                   r_source = (if source e = ''backend'' then ''cache'' else ''predicted'')\<rparr>,
                  thread, g')
           \<and> cache_of g' user = ?c" if "now - timestamp e < expiry e"
  proof -
    have "resolve ?c ?an (Some e) False query ?k now =
        (result e, (if source e = ''backend'' then ''cache'' else ''predicted''), ?c, count_hit ?an)"
      using that fr src by (auto simp: resolve_def)
    from search_view[OF assms(1) cl this] show ?thesis by blast
  qed
  have miss: "\<exists>thread g'. search g query user now =
             Inr (\<lparr>r_result = ''Backend result for '' @ query, r_source = ''backend''\<rparr>, thread, g')
           \<and> map_of (cache_of g' user) ?k =
               Some \<lparr>result = ''Backend result for '' @ query, timestamp = now,
                     expiry = CACHE_EXPIRY_SECONDS, source = ''backend'',
                     LLM_Confidence = None\<rparr>" if "expiry e \<le> now - timestamp e"
  proof -
    let ?e' = "\<lparr>result = ''Backend result for '' @ query, timestamp = now,
                     expiry = CACHE_EXPIRY_SECONDS, source = ''backend'',
                     LLM_Confidence = None\<rparr>"
    have "resolve ?c ?an (Some e) False query ?k now =
        (''Backend result for '' @ query, ''backend'', AList.update ?k ?e' ?c,
         ?an\<lparr>total_backend_calls := total_backend_calls ?an + 1\<rparr>)"
      using that fr by (simp add: resolve_def backend_fill_def)
    from search_view[OF assms(1) cl this] obtain history g' where
      "search g query user now = Inr (\<lparr>r_result = ''Backend result for '' @ query, r_source = ''backend''\<rparr>, (user, history), g')"
      "cache_of g' user = AList.update ?k ?e' ?c" by blast
    moreover have "map_of (AList.update ?k ?e' ?c) ?k = Some ?e'" by (simp add: update_conv')
    ultimately show ?thesis by auto
  qed
  show ?thesis using fr cache_list_live[OF cok assms(2), of now] hit miss by blast
qed

text \<open>
  The entry written at time 0 is served at time 299 and fetched again at time 300.
\<close>

theorem ttl_boundary_witness:
  "state_ok (mem one_lookup)
   \<and> map_of (cache_of (mem one_lookup) ''guest'') (normalize_query ''Weather in Delhi'') =
       Some \<lparr>result = ''Backend result for Weather in Delhi'', timestamp = 0, expiry = 300,
             source = ''backend'', LLM_Confidence = None\<rparr>
   \<and> (\<exists>thread g'. search (mem one_lookup) ''Weather in Delhi'' ''guest'' (0 + 300 - 1) =
         Inr (\<lparr>r_result = ''Backend result for Weather in Delhi'', r_source = ''cache''\<rparr>,
              thread, g')
       \<and> cache_of g' ''guest'' = cache_of (mem one_lookup) ''guest'')
   \<and> (\<exists>thread g'. search (mem one_lookup) ''Weather in Delhi'' ''guest'' (0 + 300) =
         Inr (\<lparr>r_result = ''Backend result for Weather in Delhi'', r_source = ''backend''\<rparr>,
              thread, g')
       \<and> map_of (cache_of g' ''guest'') (normalize_query ''Weather in Delhi'') =
           Some \<lparr>result = ''Backend result for Weather in Delhi'', timestamp = 0 + 300,
                 expiry = CACHE_EXPIRY_SECONDS, source = ''backend'', LLM_Confidence = None\<rparr>)"
proof -
  have ok: "state_ok (mem one_lookup)"
    using system_ok_run[of loads_fails "[Search ''Weather in Delhi'' ''guest'' 0]"]
    by (simp add: system_ok_def one_lookup_def)
  have e: "map_of (cache_of (mem one_lookup) ''guest'') (normalize_query ''Weather in Delhi'') =
       Some \<lparr>result = ''Backend result for Weather in Delhi'', timestamp = 0, expiry = 300,
             source = ''backend'', LLM_Confidence = None\<rparr>"
    by code_simp
  show ?thesis
    using ok e ttl_boundary[OF ok e, of "0 + 300 - 1"] ttl_boundary[OF ok e, of "0 + 300"]
    by simp
qed

section \<open>Exact and fuzzy lookup\<close>

text \<open>
  C2, as the claim states it, fails: the keys that \<open>search\<close> hands to
  \<open>get_close_matches\<close> are all the keys of the user's cache, not the live ones. Here
  the cache holds a key that has run out and is the closest to the query, and a live key
  that also reaches the ratio 0.85; there is no exact entry, and the lookup is a miss.
\<close>

theorem fuzzy_live_key_counterexample:
  "map_of (cache_of (mem stale_and_live) ''guest'') (normalize_query ''weather in delhii'') = None
   \<and> map_of (cache_of (mem stale_and_live) ''guest'') ''weather in delh'' =
       Some \<lparr>result = ''Backend result for weather in delh (refreshed)'', timestamp = 100,
             expiry = 300, source = ''backend'', LLM_Confidence = None\<rparr>
   \<and> is_fresh 300 \<lparr>result = ''Backend result for weather in delh (refreshed)'', timestamp = 100,
             expiry = 300, source = ''backend'', LLM_Confidence = None\<rparr>
   \<and> 17 / 20 \<le> ratio ''weather in delh'' (normalize_query ''weather in delhii'')
   \<and> map_sum id fst (search (mem stale_and_live) ''weather in delhii'' ''guest'' 300) =
       Inr \<lparr>r_result = ''Backend result for weather in delhii'', r_source = ''backend''\<rparr>"
  by code_simp

text \<open>
  C2, amended. A \<open>search\<close> always answers. If the cache has an entry at the normalized
  key, the answer is that entry's result as a hit when the entry is live and a backend
  miss when it is not; no other key is looked at. If it has none, the closest key is
  sought among all the keys of the cache, expired ones included: when no key reaches the
  ratio 0.85 the lookup is a miss; otherwise the best key (none has a higher ratio) is
  taken, and the answer is its entry's result tagged \<open>fuzzy_cache\<close> when that entry is
  live, and a backend miss when it is not.
\<close>

theorem search_lookup_order:
  assumes "state_ok g"
  shows "\<exists>resp thread g'. search g query user now = Inr (resp, thread, g')
    \<and> (\<forall>e. map_of (cache_of g user) (normalize_query query) = Some e \<longrightarrow>
          resp = (if is_fresh now e
                  then \<lparr>r_result = result e,
                        r_source = (if source e = ''backend'' then ''cache'' else ''predicted'')\<rparr>
                  else \<lparr>r_result = ''Backend result for '' @ query, r_source = ''backend''\<rparr>))
    \<and> (map_of (cache_of g user) (normalize_query query) = None \<longrightarrow>
          (if \<forall>x \<in> set (map fst (cache_of g user)). ratio x (normalize_query query) < 17 / 20
           then resp = \<lparr>r_result = ''Backend result for '' @ query, r_source = ''backend''\<rparr>
           else (\<exists>k e. map_of (cache_of g user) k = Some e
                  \<and> 17 / 20 \<le> ratio k (normalize_query query)
                  \<and> (\<forall>x \<in> set (map fst (cache_of g user)).
                        ratio x (normalize_query query) \<le> ratio k (normalize_query query))
                  \<and> resp = (if is_fresh now e
                            then \<lparr>r_result = result e, r_source = ''fuzzy_cache''\<rparr>
                            else \<lparr>r_result = ''Backend result for '' @ query,
                                  r_source = ''backend''\<rparr>))))"
proof -
  let ?c = "cache_of g user" and ?k = "normalize_query query" and ?an = "counters_of g user"
  let ?miss = "\<lparr>r_result = ''Backend result for '' @ query, r_source = ''backend''\<rparr>"
  have cok: "cache_ok ?c" by (rule cache_of_ok[OF assms])
  obtain cache_entry fuzzy_used fuzzy_key where
    cl: "cache_lookup ?c ?k = Inr (cache_entry, fuzzy_used, fuzzy_key)"
    using cache_lookup_Inr[of ?c ?k] by (elim exE)
  obtain res src cache' an' where
    rs: "resolve ?c ?an cache_entry fuzzy_used query ?k now = (res, src, cache', an')"
    by (cases "resolve ?c ?an cache_entry fuzzy_used query ?k now")
  from search_view[OF assms cl rs] obtain history g' where
    s: "search g query user now = Inr (\<lparr>r_result = res, r_source = src\<rparr>, (user, history), g')"
    by (elim exE conjE)
  let ?resp = "\<lparr>r_result = res, r_source = src\<rparr>"
  have exact: "?resp = (if is_fresh now e
                  then \<lparr>r_result = result e,
                        r_source = (if source e = ''backend'' then ''cache'' else ''predicted'')\<rparr>
                  else ?miss)" if e: "map_of ?c ?k = Some e" for e
  proof -
    have "cache_entry = Some e" "fuzzy_used = False"
      using cl e by (simp_all add: cache_lookup_def)
    moreover have "source e = ''backend'' \<or> source e = ''predicted''"
      using map_of_cache_ok[OF cok e] by simp
    ultimately show ?thesis using rs by (auto simp: resolve_def backend_fill_def split: if_splits)
  qed
  have fuzzy: "(if \<forall>x \<in> set (map fst ?c). ratio x ?k < 17 / 20
           then ?resp = ?miss
           else (\<exists>k e. map_of ?c k = Some e \<and> 17 / 20 \<le> ratio k ?k
                  \<and> (\<forall>x \<in> set (map fst ?c). ratio x ?k \<le> ratio k ?k)
                  \<and> ?resp = (if is_fresh now e
                            then \<lparr>r_result = result e, r_source = ''fuzzy_cache''\<rparr>
                            else ?miss)))" if n: "map_of ?c ?k = None"
  proof (cases "get_close_matches ?k (map fst ?c)")
    case Nil
    then have far: "\<forall>x \<in> set (map fst ?c). ratio x ?k < 17 / 20"
      by (simp only: get_close_matches_Nil)
    have "cache_entry = None" using cl n Nil by (simp add: cache_lookup_def)
    then have "?resp = ?miss" using rs by (simp add: resolve_def backend_fill_def)
    then show ?thesis unfolding if_P[OF far] .
  next
    case (Cons fk rest)
    note m = get_close_matches_Cons[OF Cons]
    have near: "\<not> (\<forall>x \<in> set (map fst ?c). ratio x ?k < 17 / 20)"
      using m by (metis not_less)
    have best: "\<forall>x \<in> set (map fst ?c). ratio x ?k \<le> ratio fk ?k"
      using m by (metis less_imp_le order_refl)
    have "fk \<in> fst ` set ?c" using m by simp
    then obtain e where e: "map_of ?c fk = Some e"
      by (metis domD dom_map_of_conv_image_fst)
    have "cache_entry = Some e" "fuzzy_used = True"
      using cl n Cons e by (simp_all add: cache_lookup_def)
    then have "?resp = (if is_fresh now e
                            then \<lparr>r_result = result e, r_source = ''fuzzy_cache''\<rparr>
                            else ?miss)"
      using rs by (auto simp: resolve_def backend_fill_def split: if_splits)
    then have "\<exists>k e. map_of ?c k = Some e \<and> 17 / 20 \<le> ratio k ?k
                  \<and> (\<forall>x \<in> set (map fst ?c). ratio x ?k \<le> ratio k ?k)
                  \<and> ?resp = (if is_fresh now e
                            then \<lparr>r_result = result e, r_source = ''fuzzy_cache''\<rparr>
                            else ?miss)"
      using e m best by blast
    then show ?thesis unfolding if_not_P[OF near] .
  qed
  show ?thesis
    apply (rule exI[of _ ?resp], rule exI[of _ "(user, history)"], rule exI[of _ g'])
    apply (intro conjI allI impI)
      apply (rule s)
     apply (erule exact)
    apply (erule fuzzy)
    done
qed

text \<open>
  With the key \<open>weather in delhi\<close> cached, the query \<open>weathr in delhi\<close> (ratio 30/31) is a
  fuzzy hit and the query \<open>stock price\<close> goes to the backend.
\<close>

theorem search_lookup_order_witness:
  "state_ok (mem one_lookup)
   \<and> map_of (cache_of (mem one_lookup) ''guest'') (normalize_query ''weathr in delhi'') = None
   \<and> \<not> (\<forall>x \<in> set (map fst (cache_of (mem one_lookup) ''guest'')).
           ratio x (normalize_query ''weathr in delhi'') < 17 / 20)
   \<and> (\<exists>resp thread g'. search (mem one_lookup) ''weathr in delhi'' ''guest'' 299 =
         Inr (resp, thread, g')
       \<and> (\<exists>k e. map_of (cache_of (mem one_lookup) ''guest'') k = Some e
            \<and> 17 / 20 \<le> ratio k (normalize_query ''weathr in delhi'')
            \<and> (\<forall>x \<in> set (map fst (cache_of (mem one_lookup) ''guest'')).
                  ratio x (normalize_query ''weathr in delhi'')
                    \<le> ratio k (normalize_query ''weathr in delhi''))
            \<and> resp = (if is_fresh 299 e
                      then \<lparr>r_result = result e, r_source = ''fuzzy_cache''\<rparr>
                      else \<lparr>r_result = ''Backend result for '' @ ''weathr in delhi'',
                            r_source = ''backend''\<rparr>)))
   \<and> map_sum id fst (search (mem one_lookup) ''weathr in delhi'' ''guest'' 299) =
       Inr \<lparr>r_result = ''Backend result for Weather in Delhi'', r_source = ''fuzzy_cache''\<rparr>
   \<and> map_sum id fst (search (mem one_lookup) ''stock price'' ''guest'' 299) =
       Inr \<lparr>r_result = ''Backend result for stock price'', r_source = ''backend''\<rparr>"
proof -
  have ok: "state_ok (mem one_lookup)"
    using system_ok_run[of loads_fails "[Search ''Weather in Delhi'' ''guest'' 0]"]
    by (simp add: system_ok_def one_lookup_def)
  have n: "map_of (cache_of (mem one_lookup) ''guest'') (normalize_query ''weathr in delhi'') = None"
    by code_simp
  have near: "\<not> (\<forall>x \<in> set (map fst (cache_of (mem one_lookup) ''guest'')).
           ratio x (normalize_query ''weathr in delhi'') < 17 / 20)"
    by code_simp
  have f: "map_sum id fst (search (mem one_lookup) ''weathr in delhi'' ''guest'' 299) =
       Inr \<lparr>r_result = ''Backend result for Weather in Delhi'', r_source = ''fuzzy_cache''\<rparr>"
    by code_simp
  have b: "map_sum id fst (search (mem one_lookup) ''stock price'' ''guest'' 299) =
       Inr \<lparr>r_result = ''Backend result for stock price'', r_source = ''backend''\<rparr>"
    by code_simp
  from search_lookup_order[OF ok, of "''weathr in delhi''" "''guest''" 299]
  obtain resp thread g' where
    s: "search (mem one_lookup) ''weathr in delhi'' ''guest'' 299 = Inr (resp, thread, g')"
    and x: "map_of (cache_of (mem one_lookup) ''guest'') (normalize_query ''weathr in delhi'') = None
      \<longrightarrow> (if \<forall>x \<in> set (map fst (cache_of (mem one_lookup) ''guest'')).
                ratio x (normalize_query ''weathr in delhi'') < 17 / 20
           then resp = \<lparr>r_result = ''Backend result for '' @ ''weathr in delhi'', r_source = ''backend''\<rparr>
           else (\<exists>k e. map_of (cache_of (mem one_lookup) ''guest'') k = Some e
            \<and> 17 / 20 \<le> ratio k (normalize_query ''weathr in delhi'')
            \<and> (\<forall>x \<in> set (map fst (cache_of (mem one_lookup) ''guest'')).
                  ratio x (normalize_query ''weathr in delhi'')
                    \<le> ratio k (normalize_query ''weathr in delhi''))
            \<and> resp = (if is_fresh 299 e
                      then \<lparr>r_result = result e, r_source = ''fuzzy_cache''\<rparr>
                      else \<lparr>r_result = ''Backend result for '' @ ''weathr in delhi'',
                            r_source = ''backend''\<rparr>)))"
    by (elim exE conjE)
  from x n have "if \<forall>x \<in> set (map fst (cache_of (mem one_lookup) ''guest'')).
                ratio x (normalize_query ''weathr in delhi'') < 17 / 20
           then resp = \<lparr>r_result = ''Backend result for '' @ ''weathr in delhi'', r_source = ''backend''\<rparr>
           else (\<exists>k e. map_of (cache_of (mem one_lookup) ''guest'') k = Some e
            \<and> 17 / 20 \<le> ratio k (normalize_query ''weathr in delhi'')
            \<and> (\<forall>x \<in> set (map fst (cache_of (mem one_lookup) ''guest'')).
                  ratio x (normalize_query ''weathr in delhi'')
                    \<le> ratio k (normalize_query ''weathr in delhi''))
            \<and> resp = (if is_fresh 299 e
                      then \<lparr>r_result = result e, r_source = ''fuzzy_cache''\<rparr>
                      else \<lparr>r_result = ''Backend result for '' @ ''weathr in delhi'',
                            r_source = ''backend''\<rparr>))" by (rule mp)
  then have "\<exists>k e. map_of (cache_of (mem one_lookup) ''guest'') k = Some e
            \<and> 17 / 20 \<le> ratio k (normalize_query ''weathr in delhi'')
            \<and> (\<forall>x \<in> set (map fst (cache_of (mem one_lookup) ''guest'')).
                  ratio x (normalize_query ''weathr in delhi'')
                    \<le> ratio k (normalize_query ''weathr in delhi''))
            \<and> resp = (if is_fresh 299 e
                      then \<lparr>r_result = result e, r_source = ''fuzzy_cache''\<rparr>
                      else \<lparr>r_result = ''Backend result for '' @ ''weathr in delhi'',
                            r_source = ''backend''\<rparr>)"
    unfolding if_not_P[OF near] .
  with s have "\<exists>resp thread g'. search (mem one_lookup) ''weathr in delhi'' ''guest'' 299 =
         Inr (resp, thread, g')
       \<and> (\<exists>k e. map_of (cache_of (mem one_lookup) ''guest'') k = Some e
            \<and> 17 / 20 \<le> ratio k (normalize_query ''weathr in delhi'')
            \<and> (\<forall>x \<in> set (map fst (cache_of (mem one_lookup) ''guest'')).
                  ratio x (normalize_query ''weathr in delhi'')
                    \<le> ratio k (normalize_query ''weathr in delhi''))
            \<and> resp = (if is_fresh 299 e
                      then \<lparr>r_result = result e, r_source = ''fuzzy_cache''\<rparr>
                      else \<lparr>r_result = ''Backend result for '' @ ''weathr in delhi'',
                            r_source = ''backend''\<rparr>))"
    by blast
  with ok n near f b show ?thesis by (intro conjI)
qed

section \<open>Counters and miss rate\<close>

text \<open>
  C6. A \<open>search\<close> answers with one of the four sources. When the source is \<open>backend\<close>
  the user's \<open>total_backend_calls\<close> grows by one and the two other counters stay; for
  every other source (\<open>cache\<close>, \<open>predicted\<close>, \<open>fuzzy_cache\<close> alike) \<open>api_calls_saved\<close> and
  \<open>total_cache_hits\<close> each grow by one and \<open>total_backend_calls\<close> stays. The miss rate of
  the dashboard is computed from the hit log alone: the number of records of source
  \<open>backend\<close> divided by the number of records (every record is a miss or a hit), and 0
  for an empty log. The quotient is the exact one; the program rounds it to a double.
\<close>

theorem analytics_counting:
  assumes "state_ok g"
  shows "(\<exists>resp thread g'. search g query user now = Inr (resp, thread, g')
      \<and> known_source (r_source resp)
      \<and> counters_of g' user =
          (if r_source resp = ''backend''
           then (counters_of g user)\<lparr>total_backend_calls := total_backend_calls (counters_of g user) + 1\<rparr>
           else (counters_of g user)\<lparr>api_calls_saved := api_calls_saved (counters_of g user) + 1,
                                     total_cache_hits := total_cache_hits (counters_of g user) + 1\<rparr>))
    \<and> (\<exists>view. dashboard g user now = Inr (view, ensure_user g user)
      \<and> d_miss_rate view =
          (if log_of g user = [] then 0
           else of_nat (miss_count (log_of g user))
                / of_nat (miss_count (log_of g user) + hit_count (log_of g user)))
      \<and> miss_count (log_of g user) = length (filter (\<lambda>h. hit_source h = ''backend'') (log_of g user))
      \<and> miss_count (log_of g user) + hit_count (log_of g user) = length (log_of g user)
      \<and> d_api_calls_saved view = api_calls_saved (counters_of g user)
      \<and> d_total_backend_calls view = total_backend_calls (counters_of g user)
      \<and> d_total_cache_hits view = total_cache_hits (counters_of g user))"
proof (rule conjI)
  let ?c = "cache_of g user" and ?k = "normalize_query query" and ?an = "counters_of g user"
  have cok: "cache_ok ?c" by (rule cache_of_ok[OF assms])
  obtain cache_entry fuzzy_used fuzzy_key where
    cl: "cache_lookup ?c ?k = Inr (cache_entry, fuzzy_used, fuzzy_key)"
    using cache_lookup_Inr[of ?c ?k] by (elim exE)
  obtain res src cache' an' where
    rs: "resolve ?c ?an cache_entry fuzzy_used query ?k now = (res, src, cache', an')"
    by (cases "resolve ?c ?an cache_entry fuzzy_used query ?k now")
  from search_view[OF assms cl rs] obtain history g' where
    s: "search g query user now = Inr (\<lparr>r_result = res, r_source = src\<rparr>, (user, history), g')"
    and an': "counters_of g' user = an'"
    by (elim exE conjE)
  have src_ok: "\<forall>e. cache_entry = Some e \<longrightarrow> source e = ''backend'' \<or> source e = ''predicted''"
  proof (intro allI impI)
    fix e assume "cache_entry = Some e"
    then have "cache_lookup ?c ?k = Inr (Some e, fuzzy_used, fuzzy_key)" using cl by simp
    from cache_lookup_entry[OF cok this]
    show "source e = ''backend'' \<or> source e = ''predicted''" by (rule conjunct2)
  qed
  have known: "known_source src" using resolve_ok[OF cok rs src_ok] by simp
  have cnt: "an' = (if src = ''backend''
           then ?an\<lparr>total_backend_calls := total_backend_calls ?an + 1\<rparr>
           else ?an\<lparr>api_calls_saved := api_calls_saved ?an + 1,
                    total_cache_hits := total_cache_hits ?an + 1\<rparr>)"
  proof (cases cache_entry)
    case None
    then show ?thesis using rs by (simp add: resolve_def backend_fill_def)
  next
    case (Some e)
    then show ?thesis using rs src_ok
      by (auto simp: resolve_def backend_fill_def count_hit_def split: if_splits)
  qed
  show "\<exists>resp thread g'. search g query user now = Inr (resp, thread, g')
      \<and> known_source (r_source resp)
      \<and> counters_of g' user =
          (if r_source resp = ''backend''
           then ?an\<lparr>total_backend_calls := total_backend_calls ?an + 1\<rparr>
           else ?an\<lparr>api_calls_saved := api_calls_saved ?an + 1,
                    total_cache_hits := total_cache_hits ?an + 1\<rparr>)"
    apply (rule exI[of _ "\<lparr>r_result = res, r_source = src\<rparr>"], rule exI[of _ "(user, history)"],
        rule exI[of _ g'])
    using s known an' cnt by simp
next
  let ?l = "log_of g user"
  have len: "miss_count ?l + hit_count ?l = length ?l"
    using log_of_ok[OF assms, of user] by (intro count_known) simp
  have d: "dashboard g user now = Inr (\<lparr>d_cache = cache_list (cache_of g user) now,
                d_last_10_hits = ?l,
                d_miss_rate = miss_rate ?l,
                d_predictions = predictions_of g user,
                d_api_calls_saved = api_calls_saved (counters_of g user),
                d_total_backend_calls = total_backend_calls (counters_of g user),
                d_total_cache_hits = total_cache_hits (counters_of g user),
                d_avg_latency_saved = avg_latency_saved (counters_of g user)\<rparr>, ensure_user g user)"
    by (simp add: dashboard_def get_user_data_view[OF assms])
  have mr: "miss_rate ?l = (if ?l = [] then 0
           else of_nat (miss_count ?l) / of_nat (miss_count ?l + hit_count ?l))"
    unfolding miss_rate_def len by simp
  show "\<exists>view. dashboard g user now = Inr (view, ensure_user g user)
      \<and> d_miss_rate view =
          (if ?l = [] then 0
           else of_nat (miss_count ?l) / of_nat (miss_count ?l + hit_count ?l))
      \<and> miss_count ?l = length (filter (\<lambda>h. hit_source h = ''backend'') ?l)
      \<and> miss_count ?l + hit_count ?l = length ?l
      \<and> d_api_calls_saved view = api_calls_saved (counters_of g user)
      \<and> d_total_backend_calls view = total_backend_calls (counters_of g user)
      \<and> d_total_cache_hits view = total_cache_hits (counters_of g user)"
    unfolding d using mr len by (simp add: miss_count_def)
qed

text \<open>
  After one miss, the same query is a hit; the log then holds one miss and the miss rate
  shown is 1.
\<close>

theorem analytics_counting_witness:
  "state_ok (mem one_lookup)
   \<and> counters_of (mem one_lookup) ''guest'' =
       \<lparr>api_calls_saved = 0, total_backend_calls = 1, total_cache_hits = 0\<rparr>
   \<and> map_sum id fst (search (mem one_lookup) ''Weather in Delhi'' ''guest'' 10) =
       Inr \<lparr>r_result = ''Backend result for Weather in Delhi'', r_source = ''cache''\<rparr>
   \<and> d_miss_rate (fst (projr (dashboard (mem one_lookup) ''guest'' 10))) = 1
   \<and> ((\<exists>resp thread g'. search (mem one_lookup) ''Weather in Delhi'' ''guest'' 10 = Inr (resp, thread, g')
      \<and> known_source (r_source resp)
      \<and> counters_of g' ''guest'' =
          (if r_source resp = ''backend''
           then (counters_of (mem one_lookup) ''guest'')\<lparr>total_backend_calls := total_backend_calls (counters_of (mem one_lookup) ''guest'') + 1\<rparr>
           else (counters_of (mem one_lookup) ''guest'')\<lparr>api_calls_saved := api_calls_saved (counters_of (mem one_lookup) ''guest'') + 1,
                                     total_cache_hits := total_cache_hits (counters_of (mem one_lookup) ''guest'') + 1\<rparr>))
    \<and> (\<exists>view. dashboard (mem one_lookup) ''guest'' 10 = Inr (view, ensure_user (mem one_lookup) ''guest'')
      \<and> d_miss_rate view =
          (if log_of (mem one_lookup) ''guest'' = [] then 0
           else of_nat (miss_count (log_of (mem one_lookup) ''guest''))
                / of_nat (miss_count (log_of (mem one_lookup) ''guest'') + hit_count (log_of (mem one_lookup) ''guest'')))
      \<and> miss_count (log_of (mem one_lookup) ''guest'') = length (filter (\<lambda>h. hit_source h = ''backend'') (log_of (mem one_lookup) ''guest''))
      \<and> miss_count (log_of (mem one_lookup) ''guest'') + hit_count (log_of (mem one_lookup) ''guest'') = length (log_of (mem one_lookup) ''guest'')
      \<and> d_api_calls_saved view = api_calls_saved (counters_of (mem one_lookup) ''guest'')
      \<and> d_total_backend_calls view = total_backend_calls (counters_of (mem one_lookup) ''guest'')
      \<and> d_total_cache_hits view = total_cache_hits (counters_of (mem one_lookup) ''guest'')))"
proof -
  have ok: "state_ok (mem one_lookup)"
    using system_ok_run[of loads_fails "[Search ''Weather in Delhi'' ''guest'' 0]"]
    by (simp add: system_ok_def one_lookup_def)
  have c: "counters_of (mem one_lookup) ''guest'' =
       \<lparr>api_calls_saved = 0, total_backend_calls = 1, total_cache_hits = 0\<rparr>"
    by code_simp
  have s: "map_sum id fst (search (mem one_lookup) ''Weather in Delhi'' ''guest'' 10) =
       Inr \<lparr>r_result = ''Backend result for Weather in Delhi'', r_source = ''cache''\<rparr>"
    by code_simp
  have m: "d_miss_rate (fst (projr (dashboard (mem one_lookup) ''guest'' 10))) = 1"
    by code_simp
  note t = analytics_counting[OF ok, of "''Weather in Delhi''" "''guest''" 10]
  show ?thesis
    by (rule conjI[OF ok], rule conjI[OF c], rule conjI[OF s], rule conjI[OF m], rule t)
qed

section \<open>Admission of predictions\<close>

text \<open>
  C3. For a candidate with a string under \<open>query\<close> and a number other than NaN as its
  confidence (1.0 when the key is missing): the loop body writes, at the normalized
  query, an entry of source \<open>predicted\<close> with the confidence recorded and the current
  time as timestamp, exactly when the confidence is at least the threshold and the cache
  has no live entry at that key; otherwise it leaves the cache as it is. The other keys
  are never touched. The loop of \<open>prefetch_predictions\<close> does this to every candidate it
  reaches, each on the cache that the candidates before it left: on the empty list it
  returns the cache, and after a prefix that raised nothing it goes on, behind the
  candidate, from the cache with or without the new entry. The background task runs
  that loop on the user's cache with the threshold that the state holds when it runs,
  so a candidate of the reply ends up in the user's cache under exactly that condition.
\<close>

theorem prefetch_gate:
  assumes "map_of d ''query'' = Some (PyStr pq)"
    and "as_number (case map_of d ''confidence'' of None \<Rightarrow> PyFloat (Finite 1) | Some v \<Rightarrow> v) = Some x"
    and "x \<noteq> NaN"
  shows "(float_le (Finite t) x
          \<and> \<not> (\<exists>e. map_of cache (normalize_query pq) = Some e \<and> is_fresh now e) \<longrightarrow>
            (\<exists>cache'. prefetch_one (Finite t) now (PyDict d) cache = Inr cache'
              \<and> map_of cache' (normalize_query pq) =
                  Some \<lparr>result = ''Predicted backend result for '' @ pq, timestamp = now,
                        expiry = CACHE_EXPIRY_SECONDS, source = ''predicted'',
                        LLM_Confidence = Some (case map_of d ''confidence'' of
                                                 None \<Rightarrow> PyFloat (Finite 1) | Some v \<Rightarrow> v)\<rparr>
              \<and> (\<forall>k. k \<noteq> normalize_query pq \<longrightarrow> map_of cache' k = map_of cache k)))
     \<and> (\<not> (float_le (Finite t) x
            \<and> \<not> (\<exists>e. map_of cache (normalize_query pq) = Some e \<and> is_fresh now e)) \<longrightarrow>
            prefetch_one (Finite t) now (PyDict d) cache = Inr cache)
     \<and> prefetch_predictions (Finite t) now [] cache = (None, cache)
     \<and> (prefetch_predictions (Finite t) now ps cache0 = (None, cache) \<longrightarrow>
           prefetch_predictions (Finite t) now (ps @ PyDict d # rest) cache0 =
             prefetch_predictions (Finite t) now rest
               (if float_le (Finite t) x
                   \<and> \<not> (\<exists>e. map_of cache (normalize_query pq) = Some e \<and> is_fresh now e)
                then AList.update (normalize_query pq)
                       \<lparr>result = ''Predicted backend result for '' @ pq, timestamp = now,
                        expiry = CACHE_EXPIRY_SECONDS, source = ''predicted'',
                        LLM_Confidence = Some (case map_of d ''confidence'' of
                                                 None \<Rightarrow> PyFloat (Finite 1) | Some v \<Rightarrow> v)\<rparr>
                       cache
                else cache))
     \<and> (USER_CACHE g user \<noteq> None \<longrightarrow>
           cache_of (snd (predict_and_prefetch loads g user history reply now)) user =
             snd (prefetch_predictions (PREFETCH_CONFIDENCE_THRESHOLD g) now
                    (get_predictions_from_llm loads history reply) (cache_of g user)))
     \<and> (USER_CACHE g user \<noteq> None \<and> PREFETCH_CONFIDENCE_THRESHOLD g = Finite t
          \<and> get_predictions_from_llm loads history reply = ps @ PyDict d # rest
          \<and> prefetch_predictions (Finite t) now ps (cache_of g user) = (None, cache) \<longrightarrow>
           cache_of (snd (predict_and_prefetch loads g user history reply now)) user =
             snd (prefetch_predictions (Finite t) now rest
               (if float_le (Finite t) x
                   \<and> \<not> (\<exists>e. map_of cache (normalize_query pq) = Some e \<and> is_fresh now e)
                then AList.update (normalize_query pq)
                       \<lparr>result = ''Predicted backend result for '' @ pq, timestamp = now,
                        expiry = CACHE_EXPIRY_SECONDS, source = ''predicted'',
                        LLM_Confidence = Some (case map_of d ''confidence'' of
                                                 None \<Rightarrow> PyFloat (Finite 1) | Some v \<Rightarrow> v)\<rparr>
                       cache
                else cache)))"
proof -
  let ?conf = "case map_of d ''confidence'' of None \<Rightarrow> PyFloat (Finite 1) | Some v \<Rightarrow> v"
  let ?new = "\<lparr>result = ''Predicted backend result for '' @ pq, timestamp = now,
                  expiry = CACHE_EXPIRY_SECONDS, source = ''predicted'',
                  LLM_Confidence = Some ?conf\<rparr>"
  let ?cond = "float_le (Finite t) x
      \<and> \<not> (\<exists>e. map_of cache (normalize_query pq) = Some e \<and> is_fresh now e)"
  let ?next = "if ?cond then AList.update (normalize_query pq) ?new cache else cache"
  note one = prefetch_one_gate[OF assms, of t now cache]
  have u: "map_of (AList.update (normalize_query pq) ?new cache) (normalize_query pq) = Some ?new"
    "\<forall>k. k \<noteq> normalize_query pq \<longrightarrow>
       map_of (AList.update (normalize_query pq) ?new cache) k = map_of cache k"
    by (simp_all add: update_conv')
  have 1: "?cond \<longrightarrow>
            (\<exists>cache'. prefetch_one (Finite t) now (PyDict d) cache = Inr cache'
              \<and> map_of cache' (normalize_query pq) = Some ?new
              \<and> (\<forall>k. k \<noteq> normalize_query pq \<longrightarrow> map_of cache' k = map_of cache k))"
  proof
    assume c: ?cond
    have "prefetch_one (Finite t) now (PyDict d) cache =
        Inr (AList.update (normalize_query pq) ?new cache)"
      unfolding one if_P[OF c] ..
    then show "\<exists>cache'. prefetch_one (Finite t) now (PyDict d) cache = Inr cache'
              \<and> map_of cache' (normalize_query pq) = Some ?new
              \<and> (\<forall>k. k \<noteq> normalize_query pq \<longrightarrow> map_of cache' k = map_of cache k)"
      using u by blast
  qed
  have 2: "\<not> ?cond \<longrightarrow> prefetch_one (Finite t) now (PyDict d) cache = Inr cache"
  proof
    assume c: "\<not> ?cond"
    show "prefetch_one (Finite t) now (PyDict d) cache = Inr cache"
      unfolding one if_not_P[OF c] ..
  qed
  have 3: "prefetch_predictions (Finite t) now [] cache = (None, cache)" by simp
  have step: "prefetch_predictions (Finite t) now (PyDict d # rest) cache =
      prefetch_predictions (Finite t) now rest ?next"
    by (simp only: prefetch_predictions.simps one sum.case)
  have 4: "prefetch_predictions (Finite t) now ps cache0 = (None, cache) \<longrightarrow>
           prefetch_predictions (Finite t) now (ps @ PyDict d # rest) cache0 =
             prefetch_predictions (Finite t) now rest ?next"
  proof
    assume "prefetch_predictions (Finite t) now ps cache0 = (None, cache)"
    from prefetch_predictions_append[OF this, of "PyDict d # rest"]
    show "prefetch_predictions (Finite t) now (ps @ PyDict d # rest) cache0 =
             prefetch_predictions (Finite t) now rest ?next"
      by (simp only: step)
  qed
  have 5: "USER_CACHE g user \<noteq> None \<longrightarrow>
           cache_of (snd (predict_and_prefetch loads g user history reply now)) user =
             snd (prefetch_predictions (PREFETCH_CONFIDENCE_THRESHOLD g) now
                    (get_predictions_from_llm loads history reply) (cache_of g user))"
    using predict_and_prefetch_cache[of g user loads history reply now] by blast
  have 6: "USER_CACHE g user \<noteq> None \<and> PREFETCH_CONFIDENCE_THRESHOLD g = Finite t
          \<and> get_predictions_from_llm loads history reply = ps @ PyDict d # rest
          \<and> prefetch_predictions (Finite t) now ps (cache_of g user) = (None, cache) \<longrightarrow>
           cache_of (snd (predict_and_prefetch loads g user history reply now)) user =
             snd (prefetch_predictions (Finite t) now rest ?next)"
  proof
    assume a: "USER_CACHE g user \<noteq> None \<and> PREFETCH_CONFIDENCE_THRESHOLD g = Finite t
          \<and> get_predictions_from_llm loads history reply = ps @ PyDict d # rest
          \<and> prefetch_predictions (Finite t) now ps (cache_of g user) = (None, cache)"
    then have u: "USER_CACHE g user \<noteq> None" and th: "PREFETCH_CONFIDENCE_THRESHOLD g = Finite t"
      and pr: "get_predictions_from_llm loads history reply = ps @ PyDict d # rest"
      and pre: "prefetch_predictions (Finite t) now ps (cache_of g user) = (None, cache)"
      by simp_all
    have "cache_of (snd (predict_and_prefetch loads g user history reply now)) user =
        snd (prefetch_predictions (Finite t) now (ps @ PyDict d # rest) (cache_of g user))"
      using predict_and_prefetch_cache[OF u, of loads history reply now] by (simp only: th pr)
    also have "prefetch_predictions (Finite t) now (ps @ PyDict d # rest) (cache_of g user) =
        prefetch_predictions (Finite t) now rest ?next"
      using prefetch_predictions_append[OF pre, of "PyDict d # rest"] by (simp only: step)
    finally show "cache_of (snd (predict_and_prefetch loads g user history reply now)) user =
             snd (prefetch_predictions (Finite t) now rest ?next)" .
  qed
  show ?thesis
    by (rule conjI[OF 1], rule conjI[OF 2], rule conjI[OF 3], rule conjI[OF 4], rule conjI[OF 5],
        rule 6)
qed

text \<open>
  A candidate of confidence 0.5 is left out under the threshold 0.6 and written under the
  threshold 0.4, by the loop body and by the background task that receives it in the
  reply of the model: once the threshold is lowered, the user's cache holds the predicted
  entry after the one that the lookup wrote.
\<close>

theorem prefetch_gate_witness:
  "map_of [(''query'', PyStr ''Weather Tomorrow''), (''confidence'', PyFloat (Finite (1 / 2)))]
      ''query'' = Some (PyStr ''Weather Tomorrow'')
   \<and> as_number (case map_of [(''query'', PyStr ''Weather Tomorrow''),
                              (''confidence'', PyFloat (Finite (1 / 2)))] ''confidence'' of
                   None \<Rightarrow> PyFloat (Finite 1) | Some v \<Rightarrow> v) = Some (Finite (1 / 2))
   \<and> Finite (1 / 2) \<noteq> NaN
   \<and> \<not> float_le (Finite (5404319552844595 / 9007199254740992)) (Finite (1 / 2))
   \<and> prefetch_one (Finite (5404319552844595 / 9007199254740992)) 50
        (PyDict [(''query'', PyStr ''Weather Tomorrow''), (''confidence'', PyFloat (Finite (1 / 2)))])
        [] = Inr []
   \<and> float_le (Finite (3602879701896397 / 9007199254740992)) (Finite (1 / 2))
   \<and> (\<exists>cache'. prefetch_one (Finite (3602879701896397 / 9007199254740992)) 50
        (PyDict [(''query'', PyStr ''Weather Tomorrow''), (''confidence'', PyFloat (Finite (1 / 2)))])
        [] = Inr cache'
      \<and> map_of cache' (normalize_query ''Weather Tomorrow'') =
          Some \<lparr>result = ''Predicted backend result for '' @ ''Weather Tomorrow'', timestamp = 50,
                expiry = CACHE_EXPIRY_SECONDS, source = ''predicted'',
                LLM_Confidence = Some (PyFloat (Finite (1 / 2)))\<rparr>
      \<and> (\<forall>k. k \<noteq> normalize_query ''Weather Tomorrow'' \<longrightarrow> map_of cache' k = map_of [] k))
   \<and> get_predictions_from_llm loads_example [''Weather in Delhi''] example_reply =
       [PyDict [(''query'', PyStr ''Weather Tomorrow''), (''confidence'', PyFloat (Finite (1 / 2)))]]
   \<and> USER_CACHE (mem one_lookup) ''guest'' \<noteq> None
   \<and> PREFETCH_CONFIDENCE_THRESHOLD (mem one_lookup) =
       Finite (5404319552844595 / 9007199254740992)
   \<and> cache_of (snd (predict_and_prefetch loads_example (mem one_lookup) ''guest''
                       [''Weather in Delhi''] example_reply 50)) ''guest'' =
       cache_of (mem one_lookup) ''guest''
   \<and> USER_CACHE (mem threshold_lowered) ''guest'' \<noteq> None
   \<and> PREFETCH_CONFIDENCE_THRESHOLD (mem threshold_lowered) =
       Finite (3602879701896397 / 9007199254740992)
   \<and> map_of (cache_of (mem threshold_lowered) ''guest'') (normalize_query ''Weather Tomorrow'')
       = None
   \<and> cache_of (snd (predict_and_prefetch loads_example (mem threshold_lowered) ''guest''
                       [''Weather in Delhi''] example_reply 50)) ''guest'' =
       AList.update (normalize_query ''Weather Tomorrow'')
         \<lparr>result = ''Predicted backend result for '' @ ''Weather Tomorrow'', timestamp = 50,
          expiry = CACHE_EXPIRY_SECONDS, source = ''predicted'',
          LLM_Confidence = Some (PyFloat (Finite (1 / 2)))\<rparr>
         (cache_of (mem threshold_lowered) ''guest'')
   \<and> cache_of (snd (predict_and_prefetch loads_example (mem threshold_lowered) ''guest''
                       [''Weather in Delhi''] example_reply 50)) ''guest'' =
       [(''weather in delhi'',
         \<lparr>result = ''Backend result for Weather in Delhi'', timestamp = 0, expiry = 300,
          source = ''backend'', LLM_Confidence = None\<rparr>),
        (''weather tomorrow'',
         \<lparr>result = ''Predicted backend result for Weather Tomorrow'', timestamp = 50,
          expiry = 300, source = ''predicted'',
          LLM_Confidence = Some (PyFloat (Finite (1 / 2)))\<rparr>)]"
proof -
  let ?d = "[(''query'', PyStr ''Weather Tomorrow''), (''confidence'', PyFloat (Finite (1 / 2)))]"
  let ?hi = "5404319552844595 / 9007199254740992 :: rat"
  let ?lo = "3602879701896397 / 9007199254740992 :: rat"
  have q: "map_of ?d ''query'' = Some (PyStr ''Weather Tomorrow'')" by simp
  have c: "as_number (case map_of ?d ''confidence'' of None \<Rightarrow> PyFloat (Finite 1) | Some v \<Rightarrow> v)
      = Some (Finite (1 / 2))" by simp
  have n: "Finite (1 / 2) \<noteq> NaN" by simp
  have nle: "\<not> float_le (Finite ?hi) (Finite (1 / 2))" by (simp add: float_le_Finite)
  have le: "float_le (Finite ?lo) (Finite (1 / 2))" by (simp add: float_le_Finite)
  have preds: "get_predictions_from_llm loads_example [''Weather in Delhi''] example_reply = [PyDict ?d]"
    by code_simp
  have u1: "USER_CACHE (mem one_lookup) ''guest'' \<noteq> None" by code_simp
  have t1: "PREFETCH_CONFIDENCE_THRESHOLD (mem one_lookup) = Finite ?hi" by code_simp
  have u2: "USER_CACHE (mem threshold_lowered) ''guest'' \<noteq> None" by code_simp
  have t2: "PREFETCH_CONFIDENCE_THRESHOLD (mem threshold_lowered) = Finite ?lo" by code_simp
  have free: "map_of (cache_of (mem threshold_lowered) ''guest'') (normalize_query ''Weather Tomorrow'')
       = None" by code_simp
  have whole: "cache_of (snd (predict_and_prefetch loads_example (mem threshold_lowered) ''guest''
                       [''Weather in Delhi''] example_reply 50)) ''guest'' =
       [(''weather in delhi'',
         \<lparr>result = ''Backend result for Weather in Delhi'', timestamp = 0, expiry = 300,
          source = ''backend'', LLM_Confidence = None\<rparr>),
        (''weather tomorrow'',
         \<lparr>result = ''Predicted backend result for Weather Tomorrow'', timestamp = 50,
          expiry = 300, source = ''predicted'',
          LLM_Confidence = Some (PyFloat (Finite (1 / 2)))\<rparr>)]"
    by code_simp
  note a = prefetch_gate[OF q c n, where t = ?hi and cache = "[]" and now = 50 and ps = "[]"
      and cache0 = "[]" and rest = "[]" and g = "mem one_lookup" and user = "''guest''"
      and loads = loads_example and history = "[''Weather in Delhi'']" and reply = example_reply]
  note b = prefetch_gate[OF q c n, where t = ?lo and cache = "[]" and now = 50 and ps = "[]"
      and cache0 = "[]" and rest = "[]" and g = "mem one_lookup" and user = "''guest''"
      and loads = loads_example and history = "[''Weather in Delhi'']" and reply = example_reply]
  note k = prefetch_gate[OF q c n, where t = ?hi and cache = "cache_of (mem one_lookup) ''guest''"
      and now = 50 and ps = "[]" and cache0 = "cache_of (mem one_lookup) ''guest''" and rest = "[]"
      and g = "mem one_lookup" and user = "''guest''"
      and loads = loads_example and history = "[''Weather in Delhi'']" and reply = example_reply]
  note l = prefetch_gate[OF q c n, where t = ?lo
      and cache = "cache_of (mem threshold_lowered) ''guest''"
      and now = 50 and ps = "[]" and cache0 = "cache_of (mem threshold_lowered) ''guest''"
      and rest = "[]" and g = "mem threshold_lowered" and user = "''guest''"
      and loads = loads_example and history = "[''Weather in Delhi'']" and reply = example_reply]
  have body_hi: "prefetch_one (Finite ?hi) 50 (PyDict ?d) [] = Inr []"
    using a nle by simp
  have body_lo: "\<exists>cache'. prefetch_one (Finite ?lo) 50 (PyDict ?d) [] = Inr cache'
      \<and> map_of cache' (normalize_query ''Weather Tomorrow'') =
          Some \<lparr>result = ''Predicted backend result for '' @ ''Weather Tomorrow'', timestamp = 50,
                expiry = CACHE_EXPIRY_SECONDS, source = ''predicted'',
                LLM_Confidence = Some (PyFloat (Finite (1 / 2)))\<rparr>
      \<and> (\<forall>k. k \<noteq> normalize_query ''Weather Tomorrow'' \<longrightarrow> map_of cache' k = map_of [] k)"
    using b le by simp
  have task_hi: "cache_of (snd (predict_and_prefetch loads_example (mem one_lookup) ''guest''
                       [''Weather in Delhi''] example_reply 50)) ''guest'' =
       cache_of (mem one_lookup) ''guest''"
    using k nle preds u1 t1 by simp
  have task_lo: "cache_of (snd (predict_and_prefetch loads_example (mem threshold_lowered) ''guest''
                       [''Weather in Delhi''] example_reply 50)) ''guest'' =
       AList.update (normalize_query ''Weather Tomorrow'')
         \<lparr>result = ''Predicted backend result for '' @ ''Weather Tomorrow'', timestamp = 50,
          expiry = CACHE_EXPIRY_SECONDS, source = ''predicted'',
          LLM_Confidence = Some (PyFloat (Finite (1 / 2)))\<rparr>
         (cache_of (mem threshold_lowered) ''guest'')"
    using l le preds u2 t2 free by simp
  show ?thesis
    by (rule conjI[OF q], rule conjI[OF c], rule conjI[OF n], rule conjI[OF nle],
        rule conjI[OF body_hi], rule conjI[OF le], rule conjI[OF body_lo], rule conjI[OF preds],
        rule conjI[OF u1], rule conjI[OF t1], rule conjI[OF task_hi], rule conjI[OF u2],
        rule conjI[OF t2], rule conjI[OF free], rule conjI[OF task_lo], rule whole)
qed

section \<open>Malformed predictions\<close>

text \<open>
  C5, as the claim states it, fails: a candidate without \<open>query\<close> is not skipped. The
  subscript raises \<open>KeyError\<close>, which ends the loop, and the well-formed candidate after
  it is not prefetched, although on its own it would be.
\<close>

theorem missing_query_counterexample:
  "prefetch_predictions INITIAL_PREFETCH_CONFIDENCE_THRESHOLD 0 malformed_first [] =
     (Some KeyError, [])
   \<and> prefetch_predictions INITIAL_PREFETCH_CONFIDENCE_THRESHOLD 0 (tl malformed_first) [] =
     (None, [(''b'', \<lparr>result = ''Predicted backend result for b'', timestamp = 0, expiry = 300,
                     source = ''predicted'', LLM_Confidence = Some (PyFloat (Finite (9 / 10)))\<rparr>)])"
  by code_simp

text \<open>
  C5, amended. The prediction client returns the empty list when the request fails,
  when the content has no bracketed part (none at all, or no closing bracket after the
  first opening one) and when \<open>json.loads\<close> rejects the bracketed part. The background
  task always leaves a state that satisfies the invariant, with every hit log and every
  counter untouched: nothing of it reaches the lookup. A candidate without
  \<open>confidence\<close> is treated as one with confidence 1.0. A candidate without \<open>query\<close>
  raises \<open>KeyError\<close>: the loop ends there, with the candidates before it processed and
  those after it not.
\<close>

theorem prediction_soft_failure:
  "get_predictions_from_llm loads history RequestFailed = []
   \<and> (CHR ''['' \<notin> set content \<longrightarrow> get_predictions_from_llm loads history (Content content) = [])
   \<and> (re_search_array content = None \<longrightarrow>
        get_predictions_from_llm loads history (Content content) = [])
   \<and> (\<forall>json_str. re_search_array content = Some json_str \<and> loads (replace_quotes json_str) = None
        \<longrightarrow> get_predictions_from_llm loads history (Content content) = [])
   \<and> (state_ok g \<and> USER_CACHE g user \<noteq> None \<longrightarrow>
        state_ok (snd (predict_and_prefetch loads g user history reply now))
        \<and> (\<forall>u. log_of (snd (predict_and_prefetch loads g user history reply now)) u = log_of g u
              \<and> counters_of (snd (predict_and_prefetch loads g user history reply now)) u
                  = counters_of g u))
   \<and> (map_of d ''query'' = Some (PyStr pq) \<and> map_of d ''confidence'' = None \<longrightarrow>
        prefetch_one t now (PyDict d) cache =
          prefetch_one t now (PyDict ((''confidence'', PyFloat (Finite 1)) # d)) cache)
   \<and> (map_of d ''query'' = None \<longrightarrow> prefetch_one t now (PyDict d) cache = Inl KeyError)
   \<and> (\<forall>c1. map_of d ''query'' = None \<and> prefetch_predictions t now ps cache = (None, c1) \<longrightarrow>
        prefetch_predictions t now (ps @ PyDict d # rest) cache = (Some KeyError, c1))"
proof (intro conjI allI impI)
  show "get_predictions_from_llm loads history RequestFailed = []"
    by (simp add: get_predictions_from_llm_def)
next
  assume "CHR ''['' \<notin> set content"
  then show "get_predictions_from_llm loads history (Content content) = []"
    by (simp add: get_predictions_from_llm_def re_search_array_no_bracket)
next
  assume "re_search_array content = None"
  then show "get_predictions_from_llm loads history (Content content) = []"
    by (simp add: get_predictions_from_llm_def)
next
  fix json_str
  assume "re_search_array content = Some json_str \<and> loads (replace_quotes json_str) = None"
  then show "get_predictions_from_llm loads history (Content content) = []"
    by (simp add: get_predictions_from_llm_def)
next
  assume "state_ok g \<and> USER_CACHE g user \<noteq> None"
  then show "state_ok (snd (predict_and_prefetch loads g user history reply now))"
    using predict_and_prefetch_ok[of g user loads history reply now] by simp
next
  fix u
  show "log_of (snd (predict_and_prefetch loads g user history reply now)) u = log_of g u"
    by (rule predict_and_prefetch_frame)
next
  fix u
  show "counters_of (snd (predict_and_prefetch loads g user history reply now)) u = counters_of g u"
    by (rule predict_and_prefetch_frame)
next
  assume "map_of d ''query'' = Some (PyStr pq) \<and> map_of d ''confidence'' = None"
  then show "prefetch_one t now (PyDict d) cache =
          prefetch_one t now (PyDict ((''confidence'', PyFloat (Finite 1)) # d)) cache"
    by (simp add: prefetch_one_def)
next
  assume "map_of d ''query'' = None"
  then show "prefetch_one t now (PyDict d) cache = Inl KeyError"
    by (simp add: prefetch_one_def)
next
  fix c1
  assume a: "map_of d ''query'' = None \<and> prefetch_predictions t now ps cache = (None, c1)"
  then have "prefetch_one t now (PyDict d) c1 = Inl KeyError" by (simp add: prefetch_one_def)
  then show "prefetch_predictions t now (ps @ PyDict d # rest) cache = (Some KeyError, c1)"
    using prefetch_predictions_append[of t now ps cache c1 "PyDict d # rest"] a by simp
qed

theorem prediction_soft_failure_witness:
  "get_predictions_from_llm loads_fails [''Weather in Delhi''] RequestFailed = []
   \<and> CHR ''['' \<notin> set ''no array here''
   \<and> get_predictions_from_llm loads_fails [''Weather in Delhi''] (Content ''no array here'') = []
   \<and> re_search_array ''an open [bracket'' = None
   \<and> get_predictions_from_llm loads_fails [''Weather in Delhi''] (Content ''an open [bracket'') = []
   \<and> re_search_array ''here: [not, json] and [more]'' = Some ''[not, json]''
   \<and> loads_fails (replace_quotes ''[not, json]'') = None
   \<and> get_predictions_from_llm loads_fails [''Weather in Delhi'']
        (Content ''here: [not, json] and [more]'') = []
   \<and> state_ok (mem one_lookup) \<and> USER_CACHE (mem one_lookup) ''guest'' \<noteq> None
   \<and> state_ok (snd (predict_and_prefetch loads_fails (mem one_lookup) ''guest''
                      [''Weather in Delhi''] RequestFailed 5))
   \<and> log_of (snd (predict_and_prefetch loads_fails (mem one_lookup) ''guest''
                     [''Weather in Delhi''] RequestFailed 5)) ''guest''
       = log_of (mem one_lookup) ''guest''
   \<and> prefetch_one (Finite (3 / 5)) 5 (PyDict [(''query'', PyStr ''b'')]) [] =
       prefetch_one (Finite (3 / 5)) 5
         (PyDict [(''confidence'', PyFloat (Finite 1)), (''query'', PyStr ''b'')]) []
   \<and> prefetch_one (Finite (3 / 5)) 5 (PyDict [(''confidence'', PyFloat (Finite (9 / 10)))]) []
       = Inl KeyError
   \<and> prefetch_predictions (Finite (3 / 5)) 5
        ([PyDict [(''query'', PyStr ''a'')]]
         @ PyDict [(''confidence'', PyFloat (Finite (9 / 10)))] # [PyDict [(''query'', PyStr ''c'')]])
        [] =
       (Some KeyError,
        [(''a'', \<lparr>result = ''Predicted backend result for a'', timestamp = 5, expiry = 300,
                 source = ''predicted'', LLM_Confidence = Some (PyFloat (Finite 1))\<rparr>)])"
proof -
  have ok: "state_ok (mem one_lookup)"
    using system_ok_run[of loads_fails "[Search ''Weather in Delhi'' ''guest'' 0]"]
    by (simp add: system_ok_def one_lookup_def)
  have u: "USER_CACHE (mem one_lookup) ''guest'' \<noteq> None" by code_simp
  have nb: "CHR ''['' \<notin> set ''no array here''" by simp
  have op: "re_search_array ''an open [bracket'' = None" by code_simp
  have br: "re_search_array ''here: [not, json] and [more]'' = Some ''[not, json]''" by code_simp
  have lf: "loads_fails (replace_quotes ''[not, json]'') = None" by (simp add: loads_fails_def)
  have q: "map_of [(''query'', PyStr ''b'')] ''query'' = Some (PyStr ''b'')
      \<and> map_of [(''query'', PyStr ''b'')] ''confidence'' = None" by simp
  have nq: "map_of [(''confidence'', PyFloat (Finite (9 / 10)))] ''query'' = None" by simp
  have ps: "prefetch_predictions (Finite (3 / 5)) 5 [PyDict [(''query'', PyStr ''a'')]] [] =
      (None, [(''a'', \<lparr>result = ''Predicted backend result for a'', timestamp = 5, expiry = 300,
                 source = ''predicted'', LLM_Confidence = Some (PyFloat (Finite 1))\<rparr>)])"
    by code_simp
  note a = prediction_soft_failure[where loads = loads_fails and history = "[''Weather in Delhi'']"
      and content = "''no array here''" and g = "mem one_lookup" and user = "''guest''"
      and reply = RequestFailed and now = 5 and d = "[(''query'', PyStr ''b'')]" and pq = "''b''"
      and t = "Finite (3 / 5)" and cache = "[]" and ps = "[]" and rest = "[]"]
  note b = prediction_soft_failure[where loads = loads_fails and history = "[''Weather in Delhi'']"
      and content = "''an open [bracket''" and g = "mem one_lookup" and user = "''guest''"
      and reply = RequestFailed and now = 5 and d = "[(''confidence'', PyFloat (Finite (9 / 10)))]"
      and pq = "''b''" and t = "Finite (3 / 5)" and cache = "[]"
      and ps = "[PyDict [(''query'', PyStr ''a'')]]" and rest = "[PyDict [(''query'', PyStr ''c'')]]"]
  note c = prediction_soft_failure[where loads = loads_fails and history = "[''Weather in Delhi'']"
      and content = "''here: [not, json] and [more]''" and g = "mem one_lookup" and user = "''guest''"
      and reply = RequestFailed and now = 5 and d = "[]" and pq = "''b''"
      and t = "Finite (3 / 5)" and cache = "[]" and ps = "[]" and rest = "[]"]
  have 1: "get_predictions_from_llm loads_fails [''Weather in Delhi''] RequestFailed = []"
    using a by blast
  have 2: "get_predictions_from_llm loads_fails [''Weather in Delhi''] (Content ''no array here'') = []"
    using a nb by blast
  have 3: "get_predictions_from_llm loads_fails [''Weather in Delhi''] (Content ''an open [bracket'') = []"
    using b op by blast
  have 4: "get_predictions_from_llm loads_fails [''Weather in Delhi'']
        (Content ''here: [not, json] and [more]'') = []"
    using c br lf by blast
  have 5: "state_ok (snd (predict_and_prefetch loads_fails (mem one_lookup) ''guest''
                      [''Weather in Delhi''] RequestFailed 5))"
    "log_of (snd (predict_and_prefetch loads_fails (mem one_lookup) ''guest''
                     [''Weather in Delhi''] RequestFailed 5)) ''guest''
       = log_of (mem one_lookup) ''guest''"
    using a ok u by blast+
  have 6: "prefetch_one (Finite (3 / 5)) 5 (PyDict [(''query'', PyStr ''b'')]) [] =
       prefetch_one (Finite (3 / 5)) 5
         (PyDict [(''confidence'', PyFloat (Finite 1)), (''query'', PyStr ''b'')]) []"
    using a q by blast
  have 7: "prefetch_one (Finite (3 / 5)) 5 (PyDict [(''confidence'', PyFloat (Finite (9 / 10)))]) []
       = Inl KeyError"
    using b nq by blast
  have 8: "prefetch_predictions (Finite (3 / 5)) 5
        ([PyDict [(''query'', PyStr ''a'')]]
         @ PyDict [(''confidence'', PyFloat (Finite (9 / 10)))] # [PyDict [(''query'', PyStr ''c'')]])
        [] =
       (Some KeyError,
        [(''a'', \<lparr>result = ''Predicted backend result for a'', timestamp = 5, expiry = 300,
                 source = ''predicted'', LLM_Confidence = Some (PyFloat (Finite 1))\<rparr>)])"
    using b nq ps by blast
  show ?thesis
    using 1 nb 2 op 3 br lf 4 ok u 5 6 7 8 by (intro conjI)
qed

section \<open>The hit log\<close>

text \<open>
  C4. Along every run, the hit log of a user is the last ten of the records that the
  user's lookups appended, in order; each lookup appends exactly one record, with its
  query, the source of its answer and its time. So the log has as many records as the
  user made lookups, up to ten, and after fifteen lookups it has ten, the fifteen
  without the first five. One lookup appends its record to the log, after dropping the
  oldest record of a log that already has ten.
\<close>

theorem hit_log_fifo:
  "log_of (mem (run loads evs)) u =
     drop (length (lookups_of loads u initial_system evs) - 10)
       (lookups_of loads u initial_system evs)
   \<and> map (\<lambda>h. (hit_query h, hit_time h)) (lookups_of loads u initial_system evs)
       = lookup_requests u evs
   \<and> length (log_of (mem (run loads evs)) u) = min 10 (length (lookup_requests u evs))
   \<and> (length (lookup_requests u evs) = 15 \<longrightarrow>
        length (log_of (mem (run loads evs)) u) = 10
        \<and> log_of (mem (run loads evs)) u = drop 5 (lookups_of loads u initial_system evs))
   \<and> (state_ok g \<longrightarrow>
        (\<exists>resp thread g'. search g query user now = Inr (resp, thread, g')
          \<and> log_of g' user =
              (if length (log_of g user) < 10 then log_of g user else tl (log_of g user))
              @ [\<lparr>hit_query = query, hit_source = r_source resp, hit_time = now\<rparr>]))"
proof -
  let ?H = "lookups_of loads u initial_system evs"
  have ok: "system_ok initial_system"
    by (simp add: system_ok_def initial_system_def state_ok_initial)
  have "log_of (mem initial_system) u = []"
    by (simp add: log_of_def initial_system_def initial_state_def)
  then have 1: "log_of (mem (run loads evs)) u = drop (length ?H - 10) ?H"
    using foldl_log[OF ok, of loads evs u] by (simp add: run_def)
  have 2: "map (\<lambda>h. (hit_query h, hit_time h)) ?H = lookup_requests u evs"
    by (rule lookups_of_requests[OF ok])
  have len: "length ?H = length (lookup_requests u evs)"
    using arg_cong[OF 2, of length] by simp
  have 3: "length (log_of (mem (run loads evs)) u) = min 10 (length (lookup_requests u evs))"
    unfolding 1 using len by simp
  have 4: "length (lookup_requests u evs) = 15 \<longrightarrow>
        length (log_of (mem (run loads evs)) u) = 10
        \<and> log_of (mem (run loads evs)) u = drop 5 ?H"
    using 3 1 len by simp
  have 5: "state_ok g \<longrightarrow>
        (\<exists>resp thread g'. search g query user now = Inr (resp, thread, g')
          \<and> log_of g' user =
              (if length (log_of g user) < 10 then log_of g user else tl (log_of g user))
              @ [\<lparr>hit_query = query, hit_source = r_source resp, hit_time = now\<rparr>])"
  proof
    assume g: "state_ok g"
    from search_log[OF g, of query user now] obtain resp thread g' where
      s: "search g query user now = Inr (resp, thread, g')"
      and l: "log_of g' user = record_hit (log_of g user)
          \<lparr>hit_query = query, hit_source = r_source resp, hit_time = now\<rparr>"
      by (elim exE conjE)
    have "length (log_of g user) \<le> 10" using log_of_ok[OF g, of user] by simp
    from record_hit_cases[OF this] l
    have "log_of g' user =
              (if length (log_of g user) < 10 then log_of g user else tl (log_of g user))
              @ [\<lparr>hit_query = query, hit_source = r_source resp, hit_time = now\<rparr>]" by simp
    with s show "\<exists>resp thread g'. search g query user now = Inr (resp, thread, g')
          \<and> log_of g' user =
              (if length (log_of g user) < 10 then log_of g user else tl (log_of g user))
              @ [\<lparr>hit_query = query, hit_source = r_source resp, hit_time = now\<rparr>]" by blast
  qed
  show ?thesis by (intro conjI) (rule 1, rule 2, rule 3, rule 4, rule 5)
qed

text \<open>
  After the fifteen lookups \<open>a\<close> to \<open>o\<close> the log holds the ten from \<open>f\<close> to \<open>o\<close>.
\<close>

theorem hit_log_fifo_witness:
  "length (lookup_requests ''guest'' fifteen_lookups) = 15
   \<and> length (log_of (mem (run loads_fails fifteen_lookups)) ''guest'') = 10
   \<and> log_of (mem (run loads_fails fifteen_lookups)) ''guest'' =
       drop 5 (lookups_of loads_fails ''guest'' initial_system fifteen_lookups)
   \<and> map (\<lambda>h. (hit_query h, hit_time h))
         (log_of (mem (run loads_fails fifteen_lookups)) ''guest'') =
       [(''f'', 6), (''g'', 7), (''h'', 8), (''i'', 9), (''j'', 10), (''k'', 11), (''l'', 12),
        (''m'', 13), (''n'', 14), (''o'', 15)]
   \<and> state_ok (mem one_lookup)
   \<and> (\<exists>resp thread g'. search (mem one_lookup) ''Hello'' ''guest'' 20 = Inr (resp, thread, g')
          \<and> log_of g' ''guest'' =
              (if length (log_of (mem one_lookup) ''guest'') < 10
               then log_of (mem one_lookup) ''guest'' else tl (log_of (mem one_lookup) ''guest''))
              @ [\<lparr>hit_query = ''Hello'', hit_source = r_source resp, hit_time = 20\<rparr>])"
proof -
  let ?log = "log_of (mem (run loads_fails fifteen_lookups)) ''guest''"
  let ?H = "lookups_of loads_fails ''guest'' initial_system fifteen_lookups"
  have ok: "state_ok (mem one_lookup)"
    using system_ok_run[of loads_fails "[Search ''Weather in Delhi'' ''guest'' 0]"]
    by (simp add: system_ok_def one_lookup_def)
  have n: "length (lookup_requests ''guest'' fifteen_lookups) = 15"
    by (simp add: fifteen_lookups_def)
  note t = hit_log_fifo[of loads_fails fifteen_lookups "''guest''" "mem one_lookup" "''Hello''"
      "''guest''" 20]
  have r: "map (\<lambda>h. (hit_query h, hit_time h)) ?H = lookup_requests ''guest'' fifteen_lookups"
    using t by (elim conjE)
  have f: "length (lookup_requests ''guest'' fifteen_lookups) = 15 \<longrightarrow>
      length ?log = 10 \<and> ?log = drop 5 ?H"
    using t by (elim conjE)
  have l: "length ?log = 10" "?log = drop 5 ?H" using f n by blast+
  have "map (\<lambda>h. (hit_query h, hit_time h)) ?log = drop 5 (lookup_requests ''guest'' fifteen_lookups)"
    by (subst l(2)) (simp only: drop_map[symmetric] r)
  also have "\<dots> = [(''f'', 6), (''g'', 7), (''h'', 8), (''i'', 9), (''j'', 10), (''k'', 11),
      (''l'', 12), (''m'', 13), (''n'', 14), (''o'', 15)]"
    by (simp add: fifteen_lookups_def)
  finally have v: "map (\<lambda>h. (hit_query h, hit_time h)) ?log =
      [(''f'', 6), (''g'', 7), (''h'', 8), (''i'', 9), (''j'', 10), (''k'', 11),
      (''l'', 12), (''m'', 13), (''n'', 14), (''o'', 15)]" .
  have s: "state_ok (mem one_lookup) \<longrightarrow>
      (\<exists>resp thread g'. search (mem one_lookup) ''Hello'' ''guest'' 20 = Inr (resp, thread, g')
          \<and> log_of g' ''guest'' =
              (if length (log_of (mem one_lookup) ''guest'') < 10
               then log_of (mem one_lookup) ''guest'' else tl (log_of (mem one_lookup) ''guest''))
              @ [\<lparr>hit_query = ''Hello'', hit_source = r_source resp, hit_time = 20\<rparr>])"
    using t by (elim conjE)
  show ?thesis
    by (rule conjI[OF n], rule conjI[OF l(1)], rule conjI[OF l(2)], rule conjI[OF v],
        rule conjI[OF ok], rule mp[OF s ok])
qed

section \<open>Users not seen before\<close>

text \<open>
  C10. In every state that a run reaches, the four dictionaries have the same users.
  For a user who is not among them, \<open>get_user_data\<close> creates the empty cache, hit log
  and prediction list and the counters at zero, and each of \<open>search\<close>, \<open>dashboard\<close>,
  \<open>get_predictions\<close>, \<open>refresh\<close> and \<open>export_dashboard\<close> succeeds and leaves the four
  dictionaries with the same users again, the new one added. The dashboard of such a
  user is empty, with miss rate 0 and the counters at zero.
\<close>

theorem lazy_user_context:
  assumes "g = mem (run loads evs)"
  shows "same_users g
    \<and> (USER_CACHE g user = None \<longrightarrow>
        get_user_data g user =
          Inr (([], [], [], \<lparr>api_calls_saved = 0, total_backend_calls = 0, total_cache_hits = 0\<rparr>),
               ensure_user g user)
        \<and> USER_CACHE (ensure_user g user) user = Some []
        \<and> USER_HIT_LOG (ensure_user g user) user = Some []
        \<and> USER_PREDICTIONS (ensure_user g user) user = Some []
        \<and> USER_ANALYTICS (ensure_user g user) user =
            Some \<lparr>api_calls_saved = 0, total_backend_calls = 0, total_cache_hits = 0\<rparr>
        \<and> same_users (ensure_user g user)
        \<and> dom (USER_CACHE (ensure_user g user)) = insert user (dom (USER_CACHE g))
        \<and> (\<exists>resp thread g'. search g query user now = Inr (resp, thread, g') \<and> same_users g'
              \<and> dom (USER_CACHE g') = insert user (dom (USER_CACHE g)))
        \<and> dashboard g user now =
            Inr (\<lparr>d_cache = [], d_last_10_hits = [], d_miss_rate = 0, d_predictions = [],
                  d_api_calls_saved = 0, d_total_backend_calls = 0, d_total_cache_hits = 0,
                  d_avg_latency_saved = 0\<rparr>, ensure_user g user)
        \<and> get_predictions g user = Inr ([], ensure_user g user)
        \<and> (\<exists>res g'. refresh g query user now = Inr (res, g') \<and> same_users g'
              \<and> dom (USER_CACHE g') = insert user (dom (USER_CACHE g)))
        \<and> export_dashboard g fmt user =
            Inr (if fmt = ''csv''
                 then ExportCsv [[CellStr ''query'', CellStr ''source'', CellStr ''timestamp'',
                                  CellStr ''expiry'']]
                 else ExportData [] [] [], ensure_user g user))"
proof (intro conjI impI)
  have ok: "state_ok g"
    using system_ok_run[of loads evs] assms by (simp add: system_ok_def)
  show "same_users g" by (rule same_users_ok[OF ok])
  assume n: "USER_CACHE g user = None"
  have e: "ensure_user g user = g\<lparr>USER_CACHE := (USER_CACHE g)(user \<mapsto> []),
            USER_HIT_LOG := (USER_HIT_LOG g)(user \<mapsto> []),
            USER_PREDICTIONS := (USER_PREDICTIONS g)(user \<mapsto> []),
            USER_ANALYTICS := (USER_ANALYTICS g)(user \<mapsto>
              \<lparr>api_calls_saved = 0, total_backend_calls = 0, total_cache_hits = 0\<rparr>)\<rparr>"
    using n by (simp add: ensure_user_def)
  show gud: "get_user_data g user =
          Inr (([], [], [], \<lparr>api_calls_saved = 0, total_backend_calls = 0, total_cache_hits = 0\<rparr>),
               ensure_user g user)"
    unfolding e by (rule get_user_data_unseen[OF n])
  show "USER_CACHE (ensure_user g user) user = Some []"
    "USER_HIT_LOG (ensure_user g user) user = Some []"
    "USER_PREDICTIONS (ensure_user g user) user = Some []"
    "USER_ANALYTICS (ensure_user g user) user =
            Some \<lparr>api_calls_saved = 0, total_backend_calls = 0, total_cache_hits = 0\<rparr>"
    "dom (USER_CACHE (ensure_user g user)) = insert user (dom (USER_CACHE g))"
    unfolding e by simp_all
  show "same_users (ensure_user g user)"
    unfolding e by (rule same_users_ok[OF state_ok_create[OF ok n]])
  from search_ok[OF ok, of query user now]
  show "\<exists>resp thread g'. search g query user now = Inr (resp, thread, g') \<and> same_users g'
              \<and> dom (USER_CACHE g') = insert user (dom (USER_CACHE g))"
    using same_users_ok by blast
  show "dashboard g user now =
            Inr (\<lparr>d_cache = [], d_last_10_hits = [], d_miss_rate = 0, d_predictions = [],
                  d_api_calls_saved = 0, d_total_backend_calls = 0, d_total_cache_hits = 0,
                  d_avg_latency_saved = 0\<rparr>, ensure_user g user)"
    by (simp add: dashboard_def gud cache_list_def miss_rate_def miss_count_def hit_count_def
        avg_latency_saved_def)
  show "get_predictions g user = Inr ([], ensure_user g user)"
    by (simp add: get_predictions_def gud)
  from refresh_ok[OF ok, of query user now]
  show "\<exists>res g'. refresh g query user now = Inr (res, g') \<and> same_users g'
              \<and> dom (USER_CACHE g') = insert user (dom (USER_CACHE g))"
    using same_users_ok by blast
  show "export_dashboard g fmt user =
            Inr (if fmt = ''csv''
                 then ExportCsv [[CellStr ''query'', CellStr ''source'', CellStr ''timestamp'',
                                  CellStr ''expiry'']]
                 else ExportData [] [] [], ensure_user g user)"
    by (simp add: export_dashboard_def gud csv_rows_def)
qed

text \<open>The user \<open>bob\<close> has not been seen in the run of one lookup by \<open>guest\<close>.\<close>

theorem lazy_user_context_witness:
  "mem one_lookup = mem (run loads_fails [Search ''Weather in Delhi'' ''guest'' 0])
   \<and> USER_CACHE (mem one_lookup) ''bob'' = None
   \<and> same_users (mem one_lookup)
   \<and> (get_user_data (mem one_lookup) ''bob'' =
          Inr (([], [], [], \<lparr>api_calls_saved = 0, total_backend_calls = 0, total_cache_hits = 0\<rparr>),
               ensure_user (mem one_lookup) ''bob'')
        \<and> USER_CACHE (ensure_user (mem one_lookup) ''bob'') ''bob'' = Some []
        \<and> USER_HIT_LOG (ensure_user (mem one_lookup) ''bob'') ''bob'' = Some []
        \<and> USER_PREDICTIONS (ensure_user (mem one_lookup) ''bob'') ''bob'' = Some []
        \<and> USER_ANALYTICS (ensure_user (mem one_lookup) ''bob'') ''bob'' =
            Some \<lparr>api_calls_saved = 0, total_backend_calls = 0, total_cache_hits = 0\<rparr>
        \<and> same_users (ensure_user (mem one_lookup) ''bob'')
        \<and> dom (USER_CACHE (ensure_user (mem one_lookup) ''bob'')) = insert ''bob'' (dom (USER_CACHE (mem one_lookup)))
        \<and> (\<exists>resp thread g'. search (mem one_lookup) ''Hello'' ''bob'' 5 = Inr (resp, thread, g') \<and> same_users g'
              \<and> dom (USER_CACHE g') = insert ''bob'' (dom (USER_CACHE (mem one_lookup))))
        \<and> dashboard (mem one_lookup) ''bob'' 5 =
            Inr (\<lparr>d_cache = [], d_last_10_hits = [], d_miss_rate = 0, d_predictions = [],
                  d_api_calls_saved = 0, d_total_backend_calls = 0, d_total_cache_hits = 0,
                  d_avg_latency_saved = 0\<rparr>, ensure_user (mem one_lookup) ''bob'')
        \<and> get_predictions (mem one_lookup) ''bob'' = Inr ([], ensure_user (mem one_lookup) ''bob'')
        \<and> (\<exists>res g'. refresh (mem one_lookup) ''Hello'' ''bob'' 5 = Inr (res, g') \<and> same_users g'
              \<and> dom (USER_CACHE g') = insert ''bob'' (dom (USER_CACHE (mem one_lookup))))
        \<and> export_dashboard (mem one_lookup) ''csv'' ''bob'' =
            Inr (if ''csv'' = ''csv''
                 then ExportCsv [[CellStr ''query'', CellStr ''source'', CellStr ''timestamp'',
                                  CellStr ''expiry'']]
                 else ExportData [] [] [], ensure_user (mem one_lookup) ''bob''))"
proof -
  have r: "mem one_lookup = mem (run loads_fails [Search ''Weather in Delhi'' ''guest'' 0])"
    by (simp add: one_lookup_def)
  have n: "USER_CACHE (mem one_lookup) ''bob'' = None"
    by code_simp
  note t = lazy_user_context[OF r, of "''bob''" "''Hello''" 5 "''csv''"]
  have 1: "same_users (mem one_lookup)" by (rule conjunct1[OF t])
  have 2: "get_user_data (mem one_lookup) ''bob'' =
          Inr (([], [], [], \<lparr>api_calls_saved = 0, total_backend_calls = 0, total_cache_hits = 0\<rparr>),
               ensure_user (mem one_lookup) ''bob'')
        \<and> USER_CACHE (ensure_user (mem one_lookup) ''bob'') ''bob'' = Some []
        \<and> USER_HIT_LOG (ensure_user (mem one_lookup) ''bob'') ''bob'' = Some []
        \<and> USER_PREDICTIONS (ensure_user (mem one_lookup) ''bob'') ''bob'' = Some []
        \<and> USER_ANALYTICS (ensure_user (mem one_lookup) ''bob'') ''bob'' =
            Some \<lparr>api_calls_saved = 0, total_backend_calls = 0, total_cache_hits = 0\<rparr>
        \<and> same_users (ensure_user (mem one_lookup) ''bob'')
        \<and> dom (USER_CACHE (ensure_user (mem one_lookup) ''bob'')) = insert ''bob'' (dom (USER_CACHE (mem one_lookup)))
        \<and> (\<exists>resp thread g'. search (mem one_lookup) ''Hello'' ''bob'' 5 = Inr (resp, thread, g') \<and> same_users g'
              \<and> dom (USER_CACHE g') = insert ''bob'' (dom (USER_CACHE (mem one_lookup))))
        \<and> dashboard (mem one_lookup) ''bob'' 5 =
            Inr (\<lparr>d_cache = [], d_last_10_hits = [], d_miss_rate = 0, d_predictions = [],
                  d_api_calls_saved = 0, d_total_backend_calls = 0, d_total_cache_hits = 0,
                  d_avg_latency_saved = 0\<rparr>, ensure_user (mem one_lookup) ''bob'')
        \<and> get_predictions (mem one_lookup) ''bob'' = Inr ([], ensure_user (mem one_lookup) ''bob'')
        \<and> (\<exists>res g'. refresh (mem one_lookup) ''Hello'' ''bob'' 5 = Inr (res, g') \<and> same_users g'
              \<and> dom (USER_CACHE g') = insert ''bob'' (dom (USER_CACHE (mem one_lookup))))
        \<and> export_dashboard (mem one_lookup) ''csv'' ''bob'' =
            Inr (if ''csv'' = ''csv''
                 then ExportCsv [[CellStr ''query'', CellStr ''source'', CellStr ''timestamp'',
                                  CellStr ''expiry'']]
                 else ExportData [] [] [], ensure_user (mem one_lookup) ''bob'')" by (rule mp[OF conjunct2[OF t] n])
  show ?thesis
    by (rule conjI[OF r], rule conjI[OF n], rule conjI[OF 1], rule 2)
qed

end
